theory Spec2Isabelle
  imports Complex_Main
begin

section \<open>JavaScript strings\<close>

text \<open>
  A JavaScript string is a sequence of UTF-16 code units.  The program looks at single
  code units only (digits, separators, white space), so a string is a list of code
  units, each a natural number.  \<open>js\<close> turns an ASCII literal into such a list.
\<close>

type_synonym code_unit = nat
type_synonym jsstring = "code_unit list"

definition js :: "string \<Rightarrow> jsstring" where
  "js s = map of_char s"

abbreviation (input) LF :: code_unit where "LF \<equiv> 10"
abbreviation (input) CR :: code_unit where "CR \<equiv> 13"
abbreviation (input) comma :: code_unit where "comma \<equiv> 44"
abbreviation (input) hyphen :: code_unit where "hyphen \<equiv> 45"
abbreviation (input) slash :: code_unit where "slash \<equiv> 47"
abbreviation (input) digit0 :: code_unit where "digit0 \<equiv> 48"
abbreviation (input) apostrophe :: code_unit where "apostrophe \<equiv> 39"

text \<open>
  White space as \<open>String.prototype.trim\<close> and the numeric-string grammar see it:
  WhiteSpace (TAB, VT, FF, ZWNBSP and the Unicode space separators) and LineTerminator
  (LF, CR, LS, PS).
\<close>

definition isStrWhiteSpaceChar :: "code_unit \<Rightarrow> bool" where
  "isStrWhiteSpaceChar c \<longleftrightarrow>
     c = 9 \<or> c = 10 \<or> c = 11 \<or> c = 12 \<or> c = 13 \<or> c = 32 \<or> c = 160 \<or> c = 5760 \<or>
     (8192 \<le> c \<and> c \<le> 8202) \<or> c = 8232 \<or> c = 8233 \<or> c = 8239 \<or> c = 8287 \<or>
     c = 12288 \<or> c = 65279"

definition trim :: "jsstring \<Rightarrow> jsstring" where
  "trim s = rev (dropWhile isStrWhiteSpaceChar (rev (dropWhile isStrWhiteSpaceChar s)))"

text \<open>\<open>consFirst c segs\<close> puts \<open>c\<close> in front of the first segment of a split.\<close>

fun consFirst :: "code_unit \<Rightarrow> jsstring list \<Rightarrow> jsstring list" where
  "consFirst c [] = [[c]]"
| "consFirst c (p # ps) = (c # p) # ps"

text \<open>\<open>s.split(sep)\<close> for a separator of one code unit: never the empty list.\<close>

fun splitOn :: "code_unit \<Rightarrow> jsstring \<Rightarrow> jsstring list" where
  "splitOn sep [] = [[]]"
| "splitOn sep (c # cs) = (if c = sep then [] # splitOn sep cs else consFirst c (splitOn sep cs))"

text \<open>\<open>text.split(/\r?\n/)\<close>: a line ends at LF, or at CR directly followed by LF.\<close>

fun splitLines :: "jsstring \<Rightarrow> jsstring list" where
  "splitLines [] = [[]]"
| "splitLines [c] = (if c = LF then [[], []] else [[c]])"
| "splitLines (c # d # cs) =
     (if c = LF then [] # splitLines (d # cs)
      else if c = CR \<and> d = LF then [] # splitLines cs
      else consFirst c (splitLines (d # cs)))"

text \<open>\<open>parts.join(sep)\<close>.\<close>

fun joinWith :: "jsstring \<Rightarrow> jsstring list \<Rightarrow> jsstring" where
  "joinWith sep [] = []"
| "joinWith sep [p] = p"
| "joinWith sep (p # q # ps) = p @ sep @ joinWith sep (q # ps)"

fun startsWith :: "jsstring \<Rightarrow> jsstring \<Rightarrow> bool" where
  "startsWith s [] = True"
| "startsWith [] (p # ps) = False"
| "startsWith (c # cs) (p # ps) = (c = p \<and> startsWith cs ps)"

text \<open>\<open>s.includes(sub)\<close>: \<open>sub\<close> occurs somewhere in \<open>s\<close>.\<close>

fun includes_str :: "jsstring \<Rightarrow> jsstring \<Rightarrow> bool" where
  "includes_str [] sub = (sub = [])"
| "includes_str (c # cs) sub = (startsWith (c # cs) sub \<or> includes_str cs sub)"

text \<open>
  \<open>s.toLowerCase()\<close> on the ASCII letters.  Code units outside ASCII are left as they
  are; no character outside ASCII has a lower-case form made of ASCII letters other than
  \<open>i\<close> and \<open>k\<close>, so the test \<open>includes("date")\<close>, the only use the program makes
  of the result, is not affected.
\<close>

definition toLowerCase :: "jsstring \<Rightarrow> jsstring" where
  "toLowerCase s = map (\<lambda>c. if 65 \<le> c \<and> c \<le> 90 then c + 32 else c) s"

text \<open>\<open>s.padStart(n, fill)\<close> for a filler of one code unit.\<close>

definition padStart :: "nat \<Rightarrow> code_unit \<Rightarrow> jsstring \<Rightarrow> jsstring" where
  "padStart n fill s = replicate (n - length s) fill @ s"

text \<open>\<open>a < b\<close> on strings: lexicographic on code units, a proper prefix is smaller.\<close>

fun jsStrLess :: "jsstring \<Rightarrow> jsstring \<Rightarrow> bool" where
  "jsStrLess [] [] = False"
| "jsStrLess [] (b # bs) = True"
| "jsStrLess (a # as) [] = False"
| "jsStrLess (a # as) (b # bs) = (a < b \<or> (a = b \<and> jsStrLess as bs))"


section \<open>JavaScript numbers and values\<close>

text \<open>
  A number is NaN, an infinity or a finite value, kept as the real it stands for; the
  finite numbers of the language are the reals that are binary64 values.  The
  arithmetic of the rated capacity (\<open>+\<close>, \<open>*\<close>, \<open>/\<close> and \<open>Math.round\<close>) is
  binary64 arithmetic: every operation rounds its exact result to the nearest binary64
  value, a tie to the even one (\<open>roundDouble\<close>).  The subtraction \<open>jsSub\<close> is used on
  small integers only (a month or a year less one, the difference of two years or
  months), where the exact result is a binary64 value.  Where a string is converted to
  a number the value of the literal is kept and only the overflow is modelled
  (\<open>toDouble\<close>: a magnitude of at least \<open>2^1024 - 2^970\<close> rounds to an infinity);
  the growth percentage and the axis domain are in real arithmetic.  The two zeros are
  one value; the program never tells them apart.
\<close>

datatype jsnum = Num real | NaN | PosInfinity | NegInfinity

datatype jsval = VUndefined | VNull | VBool bool | VNum jsnum | VStr jsstring

definition toDouble :: "real \<Rightarrow> jsnum" where
  "toDouble x = (if 2 ^ 1024 - 2 ^ 970 \<le> x then PosInfinity
                 else if x \<le> - (2 ^ 1024 - 2 ^ 970) then NegInfinity
                 else Num x)"

definition isFiniteNum :: "jsnum \<Rightarrow> bool" where
  "isFiniteNum x = (case x of Num _ \<Rightarrow> True | _ \<Rightarrow> False)"

fun jsNeg :: "jsnum \<Rightarrow> jsnum" where
  "jsNeg (Num x) = Num (- x)"
| "jsNeg NaN = NaN"
| "jsNeg PosInfinity = NegInfinity"
| "jsNeg NegInfinity = PosInfinity"

text \<open>\<open>a - b\<close> on numbers.\<close>

fun jsSub :: "jsnum \<Rightarrow> jsnum \<Rightarrow> jsnum" where
  "jsSub (Num a) (Num b) = Num (a - b)"
| "jsSub (Num a) PosInfinity = NegInfinity"
| "jsSub (Num a) NegInfinity = PosInfinity"
| "jsSub PosInfinity (Num b) = PosInfinity"
| "jsSub PosInfinity NegInfinity = PosInfinity"
| "jsSub NegInfinity (Num b) = NegInfinity"
| "jsSub NegInfinity PosInfinity = NegInfinity"
| "jsSub _ _ = NaN"

subsection \<open>Binary64 arithmetic\<close>

text \<open>
  A finite binary64 value is an integer multiple \<open>k * 2^e\<close> with \<open>|k| < 2^53\<close> and
  \<open>e\<close> from -1074 to 971.  \<open>bits n\<close> is the number of binary digits of \<open>n\<close>, and
  \<open>binade x\<close> the exponent \<open>b\<close> with \<open>2^b <= |x| < 2^(b+1)\<close>, read from the integer
  part of \<open>|x|\<close>, or of its inverse when \<open>|x| < 1\<close>.  The unit in the last place of the
  values of that binade is \<open>2^(b-52)\<close>, and \<open>2^(-1074)\<close> below the smallest normal value.
  \<open>roundDouble\<close> takes a real to the nearest multiple of that unit, a tie to the even
  multiple; \<open>fl\<close> adds the overflow to an infinity.  This is the rounding of every
  arithmetic operation of the language.
\<close>

fun bits :: "nat \<Rightarrow> nat" where
  "bits n = (if n = 0 then 0 else Suc (bits (n div 2)))"

declare bits.simps [simp del]

definition pow2 :: "int \<Rightarrow> real" where
  "pow2 e = (if 0 \<le> e then 2 ^ nat e else 1 / 2 ^ nat (- e))"

definition binade :: "real \<Rightarrow> int" where
  "binade x = (if 1 \<le> \<bar>x\<bar> then int (bits (nat \<lfloor>\<bar>x\<bar>\<rfloor>)) - 1
               else - int (bits (nat (\<lceil>1 / \<bar>x\<bar>\<rceil> - 1))))"

definition roundHalfEven :: "real \<Rightarrow> int" where
  "roundHalfEven q =
     (let f = \<lfloor>q\<rfloor> in
      if q - of_int f < 1 / 2 then f
      else if 1 / 2 < q - of_int f then f + 1
      else if even f then f else f + 1)"

definition roundDouble :: "real \<Rightarrow> real" where
  "roundDouble x =
     (if x = 0 then 0
      else let e = max (binade x) (- 1022) - 52
           in of_int (roundHalfEven (x / pow2 e)) * pow2 e)"

definition fl :: "real \<Rightarrow> jsnum" where
  "fl x = toDouble (roundDouble x)"

text \<open>
  \<open>a + b\<close>, \<open>a * b\<close> and \<open>a / b\<close> on numbers: the exact result rounded, and the
  rules of the infinities and of NaN.  The sign of a number is -1, 0 or 1; as the two
  zeros are one value, a division by zero takes the zero for +0 (the divisions of the
  modelled code are by the constant 100).
\<close>

fun jsSign :: "jsnum \<Rightarrow> real" where
  "jsSign (Num a) = sgn a"
| "jsSign PosInfinity = 1"
| "jsSign NegInfinity = - 1"
| "jsSign NaN = 0"

definition signedInfinity :: "real \<Rightarrow> jsnum" where
  "signedInfinity s = (if s = 0 then NaN else if 0 < s then PosInfinity else NegInfinity)"

fun jsAdd :: "jsnum \<Rightarrow> jsnum \<Rightarrow> jsnum" where
  "jsAdd (Num a) (Num b) = fl (a + b)"
| "jsAdd NaN _ = NaN"
| "jsAdd _ NaN = NaN"
| "jsAdd PosInfinity NegInfinity = NaN"
| "jsAdd NegInfinity PosInfinity = NaN"
| "jsAdd PosInfinity _ = PosInfinity"
| "jsAdd NegInfinity _ = NegInfinity"
| "jsAdd (Num a) b = b"

fun jsMul :: "jsnum \<Rightarrow> jsnum \<Rightarrow> jsnum" where
  "jsMul (Num a) (Num b) = fl (a * b)"
| "jsMul NaN _ = NaN"
| "jsMul _ NaN = NaN"
| "jsMul a b = signedInfinity (jsSign a * jsSign b)"

fun jsDiv :: "jsnum \<Rightarrow> jsnum \<Rightarrow> jsnum" where
  "jsDiv (Num a) (Num b) = (if b = 0 then signedInfinity (sgn a) else fl (a / b))"
| "jsDiv NaN _ = NaN"
| "jsDiv _ NaN = NaN"
| "jsDiv (Num a) _ = Num 0"
| "jsDiv a (Num b) = signedInfinity (jsSign a * (if b < 0 then - 1 else 1))"
| "jsDiv _ _ = NaN"

declare jsAdd.simps [simp del] jsMul.simps [simp del] jsDiv.simps [simp del]

text \<open>
  \<open>a !== b\<close>, \<open>a <= 0\<close> and \<open>a > 0\<close> on numbers.  NaN differs from every number,
  itself included, and is neither \<open><= 0\<close> nor \<open>> 0\<close>.
\<close>

fun numStrictNe :: "jsnum \<Rightarrow> jsnum \<Rightarrow> bool" where
  "numStrictNe NaN _ = True"
| "numStrictNe _ NaN = True"
| "numStrictNe a b = (a \<noteq> b)"

fun leZero :: "jsnum \<Rightarrow> bool" where
  "leZero (Num x) = (x \<le> 0)"
| "leZero NegInfinity = True"
| "leZero _ = False"

fun gtZero :: "jsnum \<Rightarrow> bool" where
  "gtZero (Num x) = (0 < x)"
| "gtZero PosInfinity = True"
| "gtZero _ = False"

subsection \<open>String to number\<close>

definition isDigit :: "code_unit \<Rightarrow> bool" where
  "isDigit c \<longleftrightarrow> 48 \<le> c \<and> c \<le> 57"

definition digitValue :: "code_unit \<Rightarrow> nat" where
  "digitValue c = (if 48 \<le> c \<and> c \<le> 57 then c - 48
                   else if 97 \<le> c \<and> c \<le> 102 then c - 87
                   else if 65 \<le> c \<and> c \<le> 70 then c - 55
                   else 0)"

definition isRadixDigit :: "nat \<Rightarrow> code_unit \<Rightarrow> bool" where
  "isRadixDigit b c \<longleftrightarrow>
     (isDigit c \<or> (97 \<le> c \<and> c \<le> 102) \<or> (65 \<le> c \<and> c \<le> 70)) \<and> digitValue c < b"

definition radixValue :: "nat \<Rightarrow> jsstring \<Rightarrow> nat" where
  "radixValue b s = foldl (\<lambda>a c. b * a + digitValue c) 0 s"

text \<open>\<open>0x\<close>, \<open>0o\<close> and \<open>0b\<close> literals (either case of the letter), unsigned.\<close>

definition nonDecimalIntegerLiteral :: "jsstring \<Rightarrow> nat option" where
  "nonDecimalIntegerLiteral s =
     (case s of
        z # p # ds \<Rightarrow>
          (let b = (if p = 120 \<or> p = 88 then 16
                    else if p = 111 \<or> p = 79 then 8
                    else if p = 98 \<or> p = 66 then 2 else (0::nat))
           in if z = 48 \<and> b \<noteq> 0 \<and> ds \<noteq> [] \<and> list_all (isRadixDigit b) ds
              then Some (radixValue b ds) else None)
      | _ \<Rightarrow> None)"

definition decimalDigits :: "jsstring \<Rightarrow> nat option" where
  "decimalDigits s = (if s \<noteq> [] \<and> list_all isDigit s then Some (radixValue 10 s) else None)"

definition signedInteger :: "jsstring \<Rightarrow> int option" where
  "signedInteger s =
     (case s of
        [] \<Rightarrow> None
      | c # cs \<Rightarrow>
          if c = 43 then map_option int (decimalDigits cs)
          else if c = 45 then map_option (\<lambda>n. - int n) (decimalDigits cs)
          else map_option int (decimalDigits s))"

text \<open>What is left after the digits: nothing, or an exponent part.\<close>

definition exponentPart :: "jsstring \<Rightarrow> int option" where
  "exponentPart s =
     (case s of
        [] \<Rightarrow> Some 0
      | c # cs \<Rightarrow> if c = 101 \<or> c = 69 then signedInteger cs else None)"

definition strUnsignedDecimalLiteral :: "jsstring \<Rightarrow> jsnum option" where
  "strUnsignedDecimalLiteral s =
     (if s = js ''Infinity'' then Some PosInfinity
      else
        let ip = takeWhile isDigit s;
            r1 = dropWhile isDigit s;
            hasDot = (case r1 of [] \<Rightarrow> False | c # _ \<Rightarrow> c = 46);
            fp = (if hasDot then takeWhile isDigit (tl r1) else []);
            r2 = (if hasDot then dropWhile isDigit (tl r1) else r1)
        in if ip = [] \<and> fp = [] then None
           else (case exponentPart r2 of
                   None \<Rightarrow> None
                 | Some e \<Rightarrow>
                     Some (toDouble ((real (radixValue 10 ip)
                                      + real (radixValue 10 fp) / 10 ^ length fp)
                                     * 10 powi e))))"

definition strDecimalLiteral :: "jsstring \<Rightarrow> jsnum option" where
  "strDecimalLiteral s =
     (case s of
        [] \<Rightarrow> None
      | c # cs \<Rightarrow>
          if c = 43 then strUnsignedDecimalLiteral cs
          else if c = 45 then map_option jsNeg (strUnsignedDecimalLiteral cs)
          else strUnsignedDecimalLiteral s)"

text \<open>
  \<open>StringToNumber\<close> of the language definition: white space around the literal is
  dropped, the empty string is 0, a string outside the grammar is NaN.
\<close>

definition StringToNumber :: "jsstring \<Rightarrow> jsnum" where
  "StringToNumber str =
     (let t = trim str in
      if t = [] then Num 0
      else (case nonDecimalIntegerLiteral t of
              Some n \<Rightarrow> toDouble (real n)
            | None \<Rightarrow> (case strDecimalLiteral t of Some v \<Rightarrow> v | None \<Rightarrow> NaN)))"

text \<open>\<open>Number(x)\<close> on a primitive value.\<close>

fun Number :: "jsval \<Rightarrow> jsnum" where
  "Number VUndefined = NaN"
| "Number VNull = Num 0"
| "Number (VBool b) = Num (if b then 1 else 0)"
| "Number (VNum n) = n"
| "Number (VStr s) = StringToNumber s"

subsection \<open>Number to string\<close>

fun digitsOf :: "nat \<Rightarrow> jsstring" where
  "digitsOf n = (if n < 10 then [48 + n] else digitsOf (n div 10) @ [48 + n mod 10])"

declare digitsOf.simps [simp del]

text \<open>
  \<open>String(x)\<close> and \<open>`${x}`\<close> for a number: an integer of magnitude below \<open>10^21\<close>
  prints as its decimal digits.  The digits of any other finite number are those of its
  binary64 value, which is outside this development: the result is left unspecified
  there, so nothing proved below rests on it.
\<close>

definition numberToString :: "jsnum \<Rightarrow> jsstring" where
  "numberToString x =
     (case x of
        NaN \<Rightarrow> js ''NaN''
      | PosInfinity \<Rightarrow> js ''Infinity''
      | NegInfinity \<Rightarrow> hyphen # js ''Infinity''
      | Num r \<Rightarrow>
          if of_int \<lfloor>r\<rfloor> = r \<and> \<bar>r\<bar> < 10 ^ 21
          then (if r < 0 then hyphen # digitsOf (nat \<lfloor>- r\<rfloor>) else digitsOf (nat \<lfloor>r\<rfloor>))
          else undefined)"


section \<open>Regular expressions of the program\<close>

text \<open>
  Every regular expression of the modelled functions is anchored at both ends and is a
  sequence of digit runs \<open>\d{lo,hi}\<close> and literal characters.  \<open>rxGroups\<close> returns the
  text of each digit run, greedy with backtracking as the engine does it; \<open>rxExec\<close> puts
  the whole match in front, so that \<open>m ! 1\<close> is the source's \<open>m[1]\<close>.
\<close>

datatype rx = Digits nat nat | Lit code_unit

fun firstSome :: "('a \<Rightarrow> 'b option) \<Rightarrow> 'a list \<Rightarrow> 'b option" where
  "firstSome f [] = None"
| "firstSome f (x # xs) = (case f x of Some y \<Rightarrow> Some y | None \<Rightarrow> firstSome f xs)"

fun rxGroups :: "rx list \<Rightarrow> jsstring \<Rightarrow> jsstring list option" where
  "rxGroups [] s = (if s = [] then Some [] else None)"
| "rxGroups (Lit c # r) s =
     (case s of [] \<Rightarrow> None | x # xs \<Rightarrow> if x = c then rxGroups r xs else None)"
| "rxGroups (Digits lo hi # r) s =
     firstSome
       (\<lambda>k. if k \<le> length s \<and> list_all isDigit (take k s)
             then map_option (\<lambda>gs. take k s # gs) (rxGroups r (drop k s))
             else None)
       (rev [lo..<Suc hi])"

definition rxExec :: "rx list \<Rightarrow> jsstring \<Rightarrow> jsstring list option" where
  "rxExec r s = map_option (\<lambda>gs. s # gs) (rxGroups r s)"

definition rxTest :: "rx list \<Rightarrow> jsstring \<Rightarrow> bool" where
  "rxTest r s = (rxGroups r s \<noteq> None)"

text \<open>\<open>/^(\d{1,2})\/(\d{4})$/\<close>\<close>
definition rxMonthYear :: "rx list" where
  "rxMonthYear = [Digits 1 2, Lit slash, Digits 4 4]"

text \<open>\<open>/^(\d{2})\/(\d{2})\/(\d{4})$/\<close>\<close>
definition rxDMYSlash :: "rx list" where
  "rxDMYSlash = [Digits 2 2, Lit slash, Digits 2 2, Lit slash, Digits 4 4]"

text \<open>\<open>/^(\d{2})-(\d{2})-(\d{4})$/\<close>\<close>
definition rxDMYHyphen :: "rx list" where
  "rxDMYHyphen = [Digits 2 2, Lit hyphen, Digits 2 2, Lit hyphen, Digits 4 4]"

text \<open>\<open>/^(\d{4})-(\d{2})-(\d{2})$/\<close>\<close>
definition rxISO :: "rx list" where
  "rxISO = [Digits 4 4, Lit hyphen, Digits 2 2, Lit hyphen, Digits 2 2]"


section \<open>Generic helpers\<close>

text \<open>
  \<open>Math.round\<close>: the nearest integer, a tie going up; an infinity and NaN are returned
  as they are.  The integer is a binary64 value: a number of magnitude \<open>2^52\<close> or more is
  an integer itself.
\<close>

fun MathRound :: "jsnum \<Rightarrow> jsnum" where
  "MathRound (Num x) = Num (of_int \<lfloor>x + 1 / 2\<rfloor>)"
| "MathRound x = x"

definition round2 :: "jsnum \<Rightarrow> jsnum" where
  "round2 n = jsDiv (MathRound (jsMul n (Num 100))) (Num 100)"

definition safeNum :: "jsval \<Rightarrow> real" where
  "safeNum x = (case Number x of Num n \<Rightarrow> n | _ \<Rightarrow> 0)"

text \<open>
  An object used as a record of numbers is a partial map from its keys; reading a key
  that is not there gives \<open>undefined\<close>.
\<close>

definition readKey :: "('k \<rightharpoonup> jsnum) \<Rightarrow> 'k \<Rightarrow> jsval" where
  "readKey obj k = (case obj k of None \<Rightarrow> VUndefined | Some n \<Rightarrow> VNum n)"

definition sumSources :: "('k \<rightharpoonup> jsnum) \<Rightarrow> 'k list \<Rightarrow> jsnum" where
  "sumSources obj keys = foldl (\<lambda>acc k. jsAdd acc (Num (safeNum (readKey obj k)))) (Num 0) keys"


section \<open>Dates\<close>

text \<open>
  Time values are milliseconds since the epoch, as integers; NaN, the invalid date, is
  \<open>None\<close>.  The functions below are the abstract operations of the language
  definition under their own names.  \<open>YearFromTime\<close> is defined there as the largest
  year whose first day is not after the time value; here it is computed from an estimate
  that is off by at most one (lemmas \<open>YearFromTime_bounds\<close> and \<open>YearFromTime_largest\<close> show the
  defining property).
\<close>

definition msPerDay :: int where
  "msPerDay = 86400000"

definition Day :: "int \<Rightarrow> int" where
  "Day t = t div msPerDay"

definition DaysInYear :: "int \<Rightarrow> int" where
  "DaysInYear y = (if y mod 4 \<noteq> 0 then 365
                   else if y mod 100 \<noteq> 0 then 366
                   else if y mod 400 \<noteq> 0 then 365
                   else 366)"

definition DayFromYear :: "int \<Rightarrow> int" where
  "DayFromYear y =
     365 * (y - 1970) + (y - 1969) div 4 - (y - 1901) div 100 + (y - 1601) div 400"

definition TimeFromYear :: "int \<Rightarrow> int" where
  "TimeFromYear y = msPerDay * DayFromYear y"

definition YearFromTime :: "int \<Rightarrow> int" where
  "YearFromTime t =
     (let d = Day t; y0 = 1970 + (400 * d) div 146097
      in if DayFromYear (y0 + 1) \<le> d then y0 + 1
         else if DayFromYear y0 \<le> d then y0
         else y0 - 1)"

definition InLeapYear :: "int \<Rightarrow> int" where
  "InLeapYear t = (if DaysInYear (YearFromTime t) = 366 then 1 else 0)"

definition DayWithinYear :: "int \<Rightarrow> int" where
  "DayWithinYear t = Day t - DayFromYear (YearFromTime t)"

definition MonthFromTime :: "int \<Rightarrow> int" where
  "MonthFromTime t =
     (let d = DayWithinYear t; l = InLeapYear t
      in if d < 31 then 0
         else if d < 59 + l then 1
         else if d < 90 + l then 2
         else if d < 120 + l then 3
         else if d < 151 + l then 4
         else if d < 181 + l then 5
         else if d < 212 + l then 6
         else if d < 243 + l then 7
         else if d < 273 + l then 8
         else if d < 304 + l then 9
         else if d < 334 + l then 10
         else 11)"

text \<open>The day within the year on which month \<open>m\<close> (0 to 11) starts.\<close>

definition monthStart :: "int \<Rightarrow> int \<Rightarrow> int" where
  "monthStart l m =
     (if m = 0 then 0
      else if m = 1 then 31
      else if m = 2 then 59 + l
      else if m = 3 then 90 + l
      else if m = 4 then 120 + l
      else if m = 5 then 151 + l
      else if m = 6 then 181 + l
      else if m = 7 then 212 + l
      else if m = 8 then 243 + l
      else if m = 9 then 273 + l
      else if m = 10 then 304 + l
      else 334 + l)"

definition DateFromTime :: "int \<Rightarrow> int" where
  "DateFromTime t = DayWithinYear t - monthStart (InLeapYear t) (MonthFromTime t) + 1"

text \<open>
  \<open>MakeDay\<close> on integral arguments: the day number of the first day of the month,
  plus the day of the month less one.  A month outside 0 to 11 carries into the year, a
  day outside the month into the neighbouring months.
\<close>

definition MakeDay :: "int \<Rightarrow> int \<Rightarrow> int \<Rightarrow> int" where
  "MakeDay year month dt =
     (let ym = year + month div 12;
          mn = month mod 12;
          l = (if DaysInYear ym = 366 then 1 else 0)
      in DayFromYear ym + monthStart l mn + dt - 1)"

definition MakeDate :: "int \<Rightarrow> int \<Rightarrow> int" where
  "MakeDate day time = day * msPerDay + time"

definition TimeClip :: "int \<Rightarrow> int option" where
  "TimeClip t = (if \<bar>t\<bar> > 8640000000000000 then None else Some t)"

text \<open>\<open>ToIntegerOrInfinity\<close> on a finite number: towards zero.\<close>

definition ToIntegerOrInfinity :: "real \<Rightarrow> int" where
  "ToIntegerOrInfinity x = (if 0 \<le> x then \<lfloor>x\<rfloor> else \<lceil>x\<rceil>)"

text \<open>
  \<open>Date.UTC(year, month, date)\<close>, the time of day left at midnight.  A year from 0 to
  99 means 1900 to 1999.  An argument that is not finite gives NaN.
\<close>

definition DateUTC :: "jsnum \<Rightarrow> jsnum \<Rightarrow> jsnum \<Rightarrow> int option" where
  "DateUTC year month dt =
     (case (year, month, dt) of
        (Num y, Num m, Num d) \<Rightarrow>
          (let yi = ToIntegerOrInfinity y;
               yr = (if 0 \<le> yi \<and> yi \<le> 99 then 1900 + yi else yi)
           in TimeClip (MakeDate (MakeDay yr (ToIntegerOrInfinity m) (ToIntegerOrInfinity d)) 0))
      | _ \<Rightarrow> None)"

text \<open>
  \<open>new Date(s + "T00:00:00Z")\<close> for \<open>s\<close> of the form \<open>YYYY-MM-DD\<close>.  The language
  definition asks for a month from 01 to 12 and a day from 01 to 31 and makes the string
  invalid otherwise.  A day from 29 to 31 that the month does not have is treated
  differently by the engines: V8 (Chrome, Edge, Node) carries it into the next month,
  others give the invalid date.  The engine's choice is a parameter.
\<close>

datatype date_parser = RollsOver | Rejects

definition daysInMonth :: "int \<Rightarrow> int \<Rightarrow> int" where
  "daysInMonth y m =
     (if m = 2 then (if DaysInYear y = 366 then 29 else 28)
      else if m = 4 \<or> m = 6 \<or> m = 9 \<or> m = 11 then 30
      else 31)"

definition newDateISO :: "date_parser \<Rightarrow> jsstring \<Rightarrow> int option" where
  "newDateISO eng s =
     (case rxExec rxISO s of
        None \<Rightarrow> None
      | Some g \<Rightarrow>
          (let y = int (radixValue 10 (g ! 1));
               m = int (radixValue 10 (g ! 2));
               d = int (radixValue 10 (g ! 3))
           in if m < 1 \<or> 12 < m \<or> d < 1 \<or> 31 < d then None
              else if daysInMonth y m < d \<and> eng = Rejects then None
              else TimeClip (MakeDate (MakeDay y (m - 1) d) 0)))"

definition getUTCFullYear :: "int \<Rightarrow> jsnum" where
  "getUTCFullYear t = Num (of_int (YearFromTime t))"

definition getUTCMonth :: "int \<Rightarrow> jsnum" where
  "getUTCMonth t = Num (of_int (MonthFromTime t))"

definition getUTCDate :: "int \<Rightarrow> jsnum" where
  "getUTCDate t = Num (of_int (DateFromTime t))"


section \<open>Month keys\<close>

text \<open>
  \<open>const [am, ay] = a.split("/").map((x) => Number(x))\<close>: the first two numbers, each
  \<open>undefined\<close> when the split has no such part.
\<close>

definition elemAt :: "jsnum list \<Rightarrow> nat \<Rightarrow> jsval" where
  "elemAt xs i = (if i < length xs then VNum (xs ! i) else VUndefined)"

definition monthKeyParts :: "jsstring \<Rightarrow> jsval \<times> jsval" where
  "monthKeyParts a =
     (let ps = map (\<lambda>x. Number (VStr x)) (splitOn slash a) in (elemAt ps 0, elemAt ps 1))"

text \<open>\<open>a !== b\<close> on values that are numbers or \<open>undefined\<close>.\<close>

fun strictNe :: "jsval \<Rightarrow> jsval \<Rightarrow> bool" where
  "strictNe (VNum a) (VNum b) = numStrictNe a b"
| "strictNe a b = (a \<noteq> b)"

definition compareMonthKey :: "jsstring \<Rightarrow> jsstring \<Rightarrow> jsnum" where
  "compareMonthKey a b =
     (case (monthKeyParts a, monthKeyParts b) of
        ((am, ay), (bm, by)) \<Rightarrow>
          if strictNe ay by then jsSub (Number ay) (Number by)
          else jsSub (Number am) (Number bm))"

text \<open>
  \<open>xs.slice().sort(cmp)\<close>.  The sort of the language is stable, and a comparator that
  orders its arguments consistently determines the result; insertion from the right,
  each element going in front of the first one it is not greater than, computes it.
  (A NaN from the comparator counts as 0.)
\<close>

fun insertBy :: "('a \<Rightarrow> 'a \<Rightarrow> jsnum) \<Rightarrow> 'a \<Rightarrow> 'a list \<Rightarrow> 'a list" where
  "insertBy cmp x [] = [x]"
| "insertBy cmp x (y # ys) = (if gtZero (cmp x y) then y # insertBy cmp x ys else x # y # ys)"

definition sortBy :: "('a \<Rightarrow> 'a \<Rightarrow> jsnum) \<Rightarrow> 'a list \<Rightarrow> 'a list" where
  "sortBy cmp xs = foldr (insertBy cmp) xs []"

text \<open>
  The loop of \<open>clampMonthKeyToOptions\<close> runs from the last index down and returns at
  the first option that compares \<open><= 0\<close> with the target: \<open>find\<close> on the reversed
  list.  \<open>sorted[0]\<close> is read only when the list is not empty.
\<close>

definition clampMonthKeyToOptions :: "jsstring \<Rightarrow> jsstring list \<Rightarrow> jsstring" where
  "clampMonthKeyToOptions target options =
     (if options = [] then target
      else if target \<in> set options then target
      else
        let sorted = sortBy compareMonthKey options
        in (case find (\<lambda>opt. leZero (compareMonthKey opt target)) (rev sorted) of
              Some opt \<Rightarrow> opt
            | None \<Rightarrow> sorted ! 0))"

definition normalizeMonth :: "jsstring \<Rightarrow> jsstring option" where
  "normalizeMonth raw =
     (let t = trim raw in
      if t = [] then None
      else (case rxExec rxMonthYear t of
        Some m1 \<Rightarrow>
          Some (padStart 2 digit0 (numberToString (Number (VStr (m1 ! 1)))) @ [slash] @ m1 ! 2)
      | None \<Rightarrow> (case rxExec rxDMYSlash t of
        Some dmy1 \<Rightarrow> Some (dmy1 ! 2 @ [slash] @ dmy1 ! 3)
      | None \<Rightarrow> (case rxExec rxDMYHyphen t of
        Some dmy2 \<Rightarrow> Some (dmy2 ! 2 @ [slash] @ dmy2 ! 3)
      | None \<Rightarrow> (case rxExec rxISO t of
        Some isoM \<Rightarrow> Some (isoM ! 2 @ [slash] @ isoM ! 1)
      | None \<Rightarrow> None)))))"


section \<open>Rated capacity\<close>

datatype SourceKey = Coal | OilGas | Nuclear | Hydro | Solar | Wind | SmallHydro | BioPower

definition SOURCES :: "SourceKey list" where
  "SOURCES = [Coal, OilGas, Nuclear, Hydro, Solar, Wind, SmallHydro, BioPower]"

text \<open>
  \<open>installed\<close> and \<open>plf\<close> are the two state records, a number for every source.  The
  loop over \<open>SOURCES\<close> fills \<open>out\<close>, which starts empty.
\<close>

definition ratedBySource ::
  "(SourceKey \<Rightarrow> jsnum) \<Rightarrow> (SourceKey \<Rightarrow> jsnum) \<Rightarrow> (SourceKey \<rightharpoonup> jsnum)" where
  "ratedBySource installed plf =
     foldl (\<lambda>out s. out(s \<mapsto>
              round2 (jsMul (Num (safeNum (VNum (installed s))))
                            (jsDiv (Num (safeNum (VNum (plf s)))) (Num 100)))))
       Map.empty SOURCES"

definition ratedTotal :: "(SourceKey \<Rightarrow> jsnum) \<Rightarrow> (SourceKey \<Rightarrow> jsnum) \<Rightarrow> jsnum" where
  "ratedTotal installed plf = sumSources (ratedBySource installed plf) SOURCES"


section \<open>Daily card helpers\<close>

definition parseISOKey :: "date_parser \<Rightarrow> jsstring \<Rightarrow> jsstring option" where
  "parseISOKey eng s =
     (if \<not> rxTest rxISO s then None
      else (case newDateISO eng s of None \<Rightarrow> None | Some d \<Rightarrow> Some s))"

text \<open>
  The two branches of \<open>parseInputDate\<close> for \<open>DD/MM/YYYY\<close> and \<open>DD-MM-YYYY\<close> have
  the same body but for the separator; \<open>parseDMY\<close> is that body.  The array
  destructuring reads the parts by index; the test before it leaves exactly three.
\<close>

definition parseDMY :: "code_unit \<Rightarrow> jsstring \<Rightarrow> jsstring option" where
  "parseDMY sep t =
     (let parts = map (\<lambda>p. Number (VStr p)) (splitOn sep t);
          dd = parts ! 0; mm = parts ! 1; yyyy = parts ! 2
      in (case DateUTC yyyy (jsSub mm (Num 1)) dd of
            None \<Rightarrow> None
          | Some d \<Rightarrow>
              if numStrictNe (getUTCFullYear d) yyyy \<or>
                 numStrictNe (getUTCMonth d) (jsSub mm (Num 1)) \<or>
                 numStrictNe (getUTCDate d) dd
              then None
              else Some (numberToString yyyy @ [hyphen]
                         @ padStart 2 digit0 (numberToString mm) @ [hyphen]
                         @ padStart 2 digit0 (numberToString dd))))"

definition parseInputDate :: "date_parser \<Rightarrow> jsstring \<Rightarrow> jsstring option" where
  "parseInputDate eng s =
     (let t = trim s in
      if rxTest rxDMYSlash t then parseDMY slash t
      else if rxTest rxDMYHyphen t then parseDMY hyphen t
      else if rxTest rxISO t then parseISOKey eng t
      else None)"

text \<open>The placeholder the formatters return for a key that is not \<open>YYYY-MM-DD\<close>: an em dash.\<close>

definition placeholder :: jsstring where
  "placeholder = [8212]"

definition formatDDMMYYYY :: "jsstring \<Rightarrow> jsstring" where
  "formatDDMMYYYY isoKey =
     (if isoKey = [] \<or> \<not> rxTest rxISO isoKey then placeholder
      else (let parts = splitOn hyphen isoKey; y = parts ! 0; m = parts ! 1; d = parts ! 2
            in d @ [hyphen] @ m @ [hyphen] @ y))"

definition formatDDMMYYYYForCSV :: "jsstring \<Rightarrow> jsstring" where
  "formatDDMMYYYYForCSV isoKey =
     (if isoKey = [] \<or> \<not> rxTest rxISO isoKey then placeholder
      else (let parts = splitOn hyphen isoKey; y = parts ! 0; m = parts ! 1; d = parts ! 2
            in d @ [slash] @ m @ [slash] @ y))"

text \<open>
  \<open>safeDiv\<close> and \<open>growthPct\<close> are called on values of the daily map, which holds finite
  numbers only (every insertion is behind a \<open>Number.isFinite\<close> test); \<open>None\<close> is
  \<open>null\<close>.
\<close>

definition safeDiv :: "real \<Rightarrow> real option \<Rightarrow> real option" where
  "safeDiv n d = (case d of None \<Rightarrow> None | Some x \<Rightarrow> if x = 0 then None else Some (n / x))"

definition growthPct :: "real \<Rightarrow> real \<Rightarrow> real option" where
  "growthPct cur prev =
     (case safeDiv (cur - prev) (Some prev) of None \<Rightarrow> None | Some r \<Rightarrow> Some (r * 100))"

definition sortISO :: "jsstring \<Rightarrow> jsstring \<Rightarrow> jsnum" where
  "sortISO a b = (if jsStrLess a b then Num (- 1) else if jsStrLess b a then Num 1 else Num 0)"



subsection \<open>Reading the daily CSV\<close>

definition csvLines :: "jsstring \<Rightarrow> jsstring list" where
  "csvLines text = filter (\<lambda>l. l \<noteq> []) (map trim (splitLines text))"

definition csvCells :: "jsstring \<Rightarrow> jsstring list" where
  "csvCells line = map trim (splitOn comma line)"

text \<open>The first loop of \<open>csvParseDaily\<close>: the lines of at least two cells.\<close>

definition csvRows :: "jsstring \<Rightarrow> jsstring list list" where
  "csvRows text = filter (\<lambda>cols. 2 \<le> length cols) (map csvCells (csvLines text))"

definition dropHeader :: "jsstring list list \<Rightarrow> jsstring list list" where
  "dropHeader rows =
     (case rows of
        [] \<Rightarrow> []
      | r # rs \<Rightarrow> if includes_str (toLowerCase (r ! 0)) (js ''date'') then rs else r # rs)"

definition dateErrorMsg :: "nat \<Rightarrow> jsstring \<Rightarrow> jsstring" where
  "dateErrorMsg i dRaw =
     js ''Row '' @ numberToString (Num (real (i + 1))) @ js '': invalid date '' @ [apostrophe]
     @ dRaw @ [apostrophe] @ js '' (expected DD/MM/YYYY)''"

definition valueErrorMsg :: "nat \<Rightarrow> jsstring \<Rightarrow> jsstring" where
  "valueErrorMsg i vRaw =
     js ''Row '' @ numberToString (Num (real (i + 1))) @ js '': invalid value '' @ [apostrophe]
     @ vRaw @ [apostrophe]"

text \<open>
  The main loop, with its index and the two arrays it pushes to.  \<open>!date\<close> holds for
  \<open>null\<close> and for the empty string.
\<close>

fun parseRows ::
  "date_parser \<Rightarrow> nat \<Rightarrow> jsstring list list \<Rightarrow> (jsstring \<times> real) list \<Rightarrow> jsstring list
     \<Rightarrow> (jsstring \<times> real) list \<times> jsstring list" where
  "parseRows eng i [] parsed errors = (parsed, errors)"
| "parseRows eng i (row # rows) parsed errors =
     (let dRaw = row ! 0;
          vRaw = row ! 1;
          date = parseInputDate eng dRaw;
          v = Number (VStr (filter (\<lambda>c. c \<noteq> comma) vRaw))
      in (case date of
            None \<Rightarrow> parseRows eng (i + 1) rows parsed (errors @ [dateErrorMsg i dRaw])
          | Some d \<Rightarrow>
              if d = [] then parseRows eng (i + 1) rows parsed (errors @ [dateErrorMsg i dRaw])
              else (case v of
                      Num x \<Rightarrow> parseRows eng (i + 1) rows (parsed @ [(d, x)]) errors
                    | _ \<Rightarrow> parseRows eng (i + 1) rows parsed (errors @ [valueErrorMsg i vRaw]))))"

definition csvParseDaily ::
  "date_parser \<Rightarrow> jsstring \<Rightarrow> (jsstring \<times> real) list \<times> jsstring list" where
  "csvParseDaily eng text = parseRows eng 0 (dropHeader (csvRows text)) [] []"

text \<open>
  One pass of the main loop, seen from the row: the date that passes \<open>!date\<close>, the
  number read from the value cell, the record the pass pushes and the error it pushes.
  Lemma \<open>parseRows_eq\<close> shows that the loop collects exactly these, in the order of
  the rows.
\<close>

definition validDate :: "date_parser \<Rightarrow> jsstring list \<Rightarrow> jsstring option" where
  "validDate eng row =
     (case parseInputDate eng (row ! 0) of
        None \<Rightarrow> None
      | Some d \<Rightarrow> if d = [] then None else Some d)"

definition rowValue :: "jsstring list \<Rightarrow> jsnum" where
  "rowValue row = Number (VStr (filter (\<lambda>c. c \<noteq> comma) (row ! 1)))"

definition rowRecord :: "date_parser \<Rightarrow> jsstring list \<Rightarrow> (jsstring \<times> real) option" where
  "rowRecord eng row =
     (case validDate eng row of
        None \<Rightarrow> None
      | Some d \<Rightarrow> (case rowValue row of Num x \<Rightarrow> Some (d, x) | _ \<Rightarrow> None))"

definition rowError :: "date_parser \<Rightarrow> nat \<Rightarrow> jsstring list \<Rightarrow> jsstring option" where
  "rowError eng i row =
     (case validDate eng row of
        None \<Rightarrow> Some (dateErrorMsg i (row ! 0))
      | Some d \<Rightarrow> (case rowValue row of Num x \<Rightarrow> None | _ \<Rightarrow> Some (valueErrorMsg i (row ! 1))))"

text \<open>The rows with the value the loop index has at each of them.\<close>

fun numbered :: "nat \<Rightarrow> 'a list \<Rightarrow> (nat \<times> 'a) list" where
  "numbered i [] = []"
| "numbered i (x # xs) = (i, x) # numbered (Suc i) xs"

subsection \<open>The daily map\<close>

text \<open>
  A \<open>Map\<close> keeps its entries in insertion order, one per key: a list of pairs with
  distinct keys.  \<open>set\<close> on a key that is there replaces the value in place, on a new
  key it appends.  \<open>get\<close> is \<open>map_of\<close>.
\<close>

type_synonym daily_map = "(jsstring \<times> real) list"

fun mapSet :: "'k \<Rightarrow> 'v \<Rightarrow> ('k \<times> 'v) list \<Rightarrow> ('k \<times> 'v) list" where
  "mapSet k v [] = [(k, v)]"
| "mapSet k v (e # es) = (if fst e = k then (k, v) # es else e # mapSet k v es)"

definition mergeRecords :: "daily_map \<Rightarrow> (jsstring \<times> real) list \<Rightarrow> daily_map" where
  "mergeRecords existingMap incoming = foldl (\<lambda>next r. mapSet (fst r) (snd r) next) existingMap incoming"

text \<open>
  What \<open>importDailyCSV\<close> does to the daily map, given the text of the file: nothing
  when no row parsed, the merge otherwise.
\<close>

definition importDailyCSV :: "date_parser \<Rightarrow> daily_map \<Rightarrow> jsstring \<Rightarrow> daily_map" where
  "importDailyCSV eng prev text =
     (case csvParseDaily eng text of
        (parsed, errors) \<Rightarrow> if parsed = [] then prev else mergeRecords prev parsed)"

definition dailySorted :: "daily_map \<Rightarrow> (jsstring \<times> real) list" where
  "dailySorted dailyMap = sortBy (\<lambda>a b. sortISO (fst a) (fst b)) dailyMap"

definition dailyLookup :: "daily_map \<Rightarrow> daily_map" where
  "dailyLookup dailyMap = foldl (\<lambda>m e. mapSet (fst e) (snd e) m) [] (dailySorted dailyMap)"

definition DAILY_VALUE_COL :: jsstring where
  "DAILY_VALUE_COL = js ''RatedCapacity_GW''"

text \<open>The text \<open>exportDailyCSV\<close> hands to the download.\<close>

definition exportDailyCSV :: "daily_map \<Rightarrow> jsstring" where
  "exportDailyCSV dailyMap =
     joinWith [LF]
       ((js ''date,'' @ DAILY_VALUE_COL)
        # map (\<lambda>d. formatDDMMYYYYForCSV (fst d) @ [comma] @ numberToString (Num (snd d)))
            (dailySorted dailyMap))"

subsection \<open>The daily chart\<close>

record chart_point =
  label :: jsstring
  units :: real
  prev_year_units :: "real option"
  yoy_pct :: "real option"

text \<open>\<open>`${Number(cur.slice(0, 4)) - 1}${cur.slice(4)}`\<close>\<close>

definition prevYearKey :: "jsstring \<Rightarrow> jsstring" where
  "prevYearKey cur = numberToString (jsSub (Number (VStr (take 4 cur))) (Num 1)) @ drop 4 cur"

text \<open>
  The body of the loop of \<open>dailyChart\<close> at the date \<open>cur\<close>: the point it pushes, or
  \<open>None\<close> when the lookup has no record at \<open>cur\<close>.
\<close>

definition chartPoint :: "daily_map \<Rightarrow> jsstring \<Rightarrow> chart_point option" where
  "chartPoint lookup cur =
     (case map_of lookup cur of
        None \<Rightarrow> None
      | Some v \<Rightarrow>
          (let py = prevYearKey cur;
               pyVal = map_of lookup py
           in Some \<lparr> label = formatDDMMYYYY cur,
                     units = v,
                     prev_year_units = pyVal,
                     yoy_pct = (case pyVal of None \<Rightarrow> None | Some p \<Rightarrow> growthPct v p) \<rparr>))"


section \<open>Shapes and month keys of the specification\<close>

text \<open>
  The specification writes the accepted inputs as shapes such as \<open>DD/MM/YYYY\<close>: the
  letters \<open>D\<close>, \<open>M\<close> and \<open>Y\<close> stand for one decimal digit each, every other
  character for itself.  A canonical month key is of shape \<open>MM/YYYY\<close> with a month
  from 01 to 12.  These definitions follow the specification's words; the properties
  below compare them with the functions of the program.
\<close>

definition isShapeLetter :: "char \<Rightarrow> bool" where
  "isShapeLetter p \<longleftrightarrow> p = CHR ''D'' \<or> p = CHR ''M'' \<or> p = CHR ''Y''"

definition slotOK :: "char \<Rightarrow> code_unit \<Rightarrow> bool" where
  "slotOK p c = (if isShapeLetter p then isDigit c else c = of_char p)"

definition shapeMatches :: "string \<Rightarrow> jsstring \<Rightarrow> bool" where
  "shapeMatches pat t = list_all2 slotOK pat t"

definition monthShapes :: "string list" where
  "monthShapes = [''M/YYYY'', ''MM/YYYY'', ''DD/MM/YYYY'', ''DD-MM-YYYY'', ''YYYY-MM-DD'']"

definition monthInRange :: "jsstring \<Rightarrow> bool" where
  "monthInRange k = (1 \<le> radixValue 10 (take 2 k) \<and> radixValue 10 (take 2 k) \<le> 12)"

definition isMonthKey :: "jsstring \<Rightarrow> bool" where
  "isMonthKey k = (shapeMatches ''MM/YYYY'' k \<and> monthInRange k)"

text \<open>
  The month field and the year field of a string of one of the five shapes that
  \<open>normalizeMonth\<close> accepts.
\<close>

definition monthField :: "jsstring \<Rightarrow> jsstring" where
  "monthField t =
     (if shapeMatches ''M/YYYY'' t then take 1 t
      else if shapeMatches ''MM/YYYY'' t then take 2 t
      else if shapeMatches ''YYYY-MM-DD'' t then take 2 (drop 5 t)
      else take 2 (drop 3 t))"

definition yearField :: "jsstring \<Rightarrow> jsstring" where
  "yearField t =
     (if shapeMatches ''M/YYYY'' t then drop 2 t
      else if shapeMatches ''MM/YYYY'' t then drop 3 t
      else if shapeMatches ''YYYY-MM-DD'' t then take 4 t
      else drop 6 t)"

text \<open>
  For the proofs about the regular expressions: the character tests of an expression
  whose digit runs have a fixed length, and the length bounds of its digit runs.
\<close>

fun rxSlots :: "rx list \<Rightarrow> (code_unit \<Rightarrow> bool) list" where
  "rxSlots [] = []"
| "rxSlots (Digits lo hi # r) = replicate lo isDigit @ rxSlots r"
| "rxSlots (Lit c # r) = (\<lambda>x. x = c) # rxSlots r"

fun rxFixed :: "rx list \<Rightarrow> bool" where
  "rxFixed [] = True"
| "rxFixed (Digits lo hi # r) = (lo = hi \<and> rxFixed r)"
| "rxFixed (Lit c # r) = rxFixed r"

fun rxBounds :: "rx list \<Rightarrow> (nat \<times> nat) list" where
  "rxBounds [] = []"
| "rxBounds (Digits lo hi # r) = (lo, hi) # rxBounds r"
| "rxBounds (Lit c # r) = rxBounds r"

definition digitRun :: "nat \<times> nat \<Rightarrow> jsstring \<Rightarrow> bool" where
  "digitRun b g = (fst b \<le> length g \<and> length g \<le> snd b \<and> list_all isDigit g)"


text \<open>
  Month keys are ordered by year, then month: the position of a key of shape
  \<open>MM/YYYY\<close> in that order.
\<close>

definition monthOrd :: "jsstring \<Rightarrow> nat" where
  "monthOrd k = 100 * radixValue 10 (drop 3 k) + radixValue 10 (take 2 k)"

text \<open>
  For the proofs about lines: a piece of \<open>text.split(/\r?\n/)\<close> is a piece of the
  split at LF without the CR at its end, if it has one.
\<close>

definition dropCR :: "jsstring \<Rightarrow> jsstring" where
  "dropCR s = (if s \<noteq> [] \<and> last s = CR then butlast s else s)"

section \<open>Properties\<close>

subsection \<open>Rated capacity\<close>

lemma ratedBySource_at:
  "ratedBySource installed plf s =
     Some (round2 (jsMul (Num (safeNum (VNum (installed s))))
                         (jsDiv (Num (safeNum (VNum (plf s)))) (Num 100))))"
  by (cases s) (simp_all add: ratedBySource_def SOURCES_def)

lemma ratedTotal_fold:
  "ratedTotal installed plf =
     foldl (\<lambda>acc s. jsAdd acc (Num (safeNum (VNum
              (round2 (jsMul (Num (safeNum (VNum (installed s))))
                             (jsDiv (Num (safeNum (VNum (plf s)))) (Num 100))))))))
       (Num 0) SOURCES"
  by (simp add: ratedTotal_def sumSources_def readKey_def ratedBySource_at)

lemma SOURCES_all: "length SOURCES = 8 \<and> distinct SOURCES \<and> set SOURCES = UNIV"
proof -
  have "s \<in> set SOURCES" for s by (cases s) (simp_all add: SOURCES_def)
  then show ?thesis by (auto simp add: SOURCES_def)
qed

text \<open>The definitions a concrete evaluation of the arithmetic unfolds.\<close>

lemmas fl_eval =
  jsAdd.simps jsMul.simps jsDiv.simps fl_def toDouble_def roundDouble_def binade_def bits.simps pow2_def roundHalfEven_def Let_def
  signedInfinity_def

text \<open>
  The rounding is the one of binary64.  \<open>binade x\<close> is the exponent of the power of
  two at or below \<open>|x|\<close>; the result of \<open>roundDouble\<close> is an integer multiple of the
  unit in the last place, of at most \<open>2^53\<close> units, the unit being at least \<open>2^(-1074)\<close>,
  and it is within half a unit of the exact value.
\<close>

lemma bits_bounds: "0 < n \<Longrightarrow> 2 ^ (bits n - 1) \<le> n \<and> n < 2 ^ bits n"
proof (induction n rule: bits.induct)
  case (1 n)
  show ?case
  proof (cases "n div 2 = 0")
    case True
    with 1(2) have n: "n = 1" by auto
    have "bits 1 = 1" by (simp add: bits.simps [of "Suc 0"] bits.simps [of 0])
    then show ?thesis unfolding n by simp
  next
    case False
    then have h: "0 < n div 2" by simp
    with 1 have ih: "2 ^ (bits (n div 2) - 1) \<le> n div 2" "n div 2 < 2 ^ bits (n div 2)"
      by simp_all
    have b: "bits n = Suc (bits (n div 2))"
      using 1(2) by (simp add: bits.simps [of n])
    have pos: "0 < bits (n div 2)"
      using h by (simp add: bits.simps [of "n div 2"])
    then have "(2::nat) ^ bits (n div 2) = 2 * 2 ^ (bits (n div 2) - 1)"
      by (cases "bits (n div 2)") simp_all
    then have lo: "2 ^ bits (n div 2) \<le> n" using ih(1) by simp
    have "n < 2 * (n div 2 + 1)" by simp
    also have "\<dots> \<le> 2 * 2 ^ bits (n div 2)" using ih(2) by simp
    finally have hi: "n < 2 ^ Suc (bits (n div 2))" by simp
    from lo hi show ?thesis by (simp add: b)
  qed
qed

lemma roundHalfEven_near: "\<bar>real_of_int (roundHalfEven q) - q\<bar> \<le> 1 / 2"
proof -
  have "real_of_int \<lfloor>q\<rfloor> \<le> q" "q < real_of_int \<lfloor>q\<rfloor> + 1" by linarith+
  then show ?thesis
    by (auto simp add: roundHalfEven_def Let_def)
qed

lemma roundHalfEven_int: "roundHalfEven (real_of_int k) = k"
  by (simp add: roundHalfEven_def)

lemma pow2_pos: "0 < pow2 e"
  by (simp add: pow2_def)

lemma roundDouble_near:
  "\<bar>roundDouble x - x\<bar> \<le> pow2 (max (binade x) (- 1022) - 52) / 2"
proof (cases "x = 0")
  case True
  then show ?thesis using pow2_pos [of "max (binade 0) (- 1022) - 52"] by (simp add: roundDouble_def)
next
  case False
  let ?p = "pow2 (max (binade x) (- 1022) - 52)"
  have p: "0 < ?p" by (rule pow2_pos)
  have "roundDouble x - x = (real_of_int (roundHalfEven (x / ?p)) - x / ?p) * ?p"
    using False p by (simp add: roundDouble_def Let_def algebra_simps)
  then have "\<bar>roundDouble x - x\<bar> = \<bar>real_of_int (roundHalfEven (x / ?p)) - x / ?p\<bar> * ?p"
    using p by (simp add: abs_mult)
  also have "\<dots> \<le> 1 / 2 * ?p"
    using roundHalfEven_near [of "x / ?p"] p by (intro mult_right_mono) simp_all
  finally show ?thesis by simp
qed

lemma pow2_nat: "pow2 (int k) = 2 ^ k"
  by (simp add: pow2_def)

lemma pow2_neg: "pow2 (- int k) = 1 / 2 ^ k"
  by (auto simp add: pow2_def)

lemma binade_bounds:
  assumes "x \<noteq> 0"
  shows "pow2 (binade x) \<le> \<bar>x\<bar> \<and> \<bar>x\<bar> < pow2 (binade x + 1)"
proof (cases "1 \<le> \<bar>x\<bar>")
  case True
  define m where "m = nat \<lfloor>\<bar>x\<bar>\<rfloor>"
  have fl1: "1 \<le> \<lfloor>\<bar>x\<bar>\<rfloor>" using True by linarith
  then have m: "0 < m" "real m \<le> \<bar>x\<bar>" "\<bar>x\<bar> < real m + 1"
    unfolding m_def by (simp, linarith, linarith)
  from bits_bounds [OF m(1)] have b: "2 ^ (bits m - 1) \<le> m" "m < 2 ^ bits m"
    by simp_all
  have pos: "0 < bits m" using m(1) by (simp add: bits.simps [of m])
  then have e1: "binade x = int (bits m - 1)" and e2: "binade x + 1 = int (bits m)"
    using True by (simp_all add: binade_def m_def)
  have "(2::real) ^ (bits m - 1) \<le> real m"
    using b(1) by (metis of_nat_le_iff of_nat_numeral of_nat_power)
  then have lo: "pow2 (binade x) \<le> \<bar>x\<bar>"
    using m(2) unfolding e1 pow2_nat by linarith
  have "m + 1 \<le> 2 ^ bits m" using b(2) by simp
  then have "real (m + 1) \<le> 2 ^ bits m"
    by (metis of_nat_le_iff of_nat_numeral of_nat_power)
  then have hi: "\<bar>x\<bar> < pow2 (binade x + 1)"
    using m(3) unfolding e2 pow2_nat by simp
  from lo hi show ?thesis ..
next
  case False
  then have x: "0 < \<bar>x\<bar>" "\<bar>x\<bar> < 1" using assms by simp_all
  define r where "r = 1 / \<bar>x\<bar>"
  have r: "1 < r" "\<bar>x\<bar> = 1 / r" "0 < r"
    using x by (simp_all add: r_def)
  define m where "m = nat (\<lceil>r\<rceil> - 1)"
  have c: "real_of_int \<lceil>r\<rceil> - 1 < r" "r \<le> real_of_int \<lceil>r\<rceil>" by linarith+
  have "2 \<le> \<lceil>r\<rceil>" using r(1) by linarith
  then have m: "0 < m" "real m < r" "r \<le> real m + 1"
    unfolding m_def using c by (simp, linarith, linarith)
  from bits_bounds [OF m(1)] have b: "2 ^ (bits m - 1) \<le> m" "m < 2 ^ bits m"
    by simp_all
  have pos: "0 < bits m" using m(1) by (simp add: bits.simps [of m])
  have e1: "binade x = - int (bits m)"
    using False by (simp add: binade_def m_def r_def)
  have e2: "binade x + 1 = - int (bits m - 1)"
    using pos by (simp add: e1)
  have "m + 1 \<le> 2 ^ bits m" using b(2) by simp
  then have "real (m + 1) \<le> 2 ^ bits m"
    by (metis of_nat_le_iff of_nat_numeral of_nat_power)
  then have "r \<le> 2 ^ bits m" using m(3) by linarith
  then have "1 / 2 ^ bits m \<le> 1 / r"
    using r(3) by (simp add: frac_le)
  then have lo: "pow2 (binade x) \<le> \<bar>x\<bar>"
    by (simp add: e1 pow2_neg r(2))
  have "(2::real) ^ (bits m - 1) \<le> real m"
    using b(1) by (metis of_nat_le_iff of_nat_numeral of_nat_power)
  then have "2 ^ (bits m - 1) < r" using m(2) by linarith
  then have "1 / r < 1 / 2 ^ (bits m - 1)"
    by (simp add: frac_less2)
  then have hi: "\<bar>x\<bar> < pow2 (binade x + 1)"
    unfolding e2 pow2_neg r(2) .
  from lo hi show ?thesis ..
qed

lemma pow2_powi: "pow2 e = 2 powi e"
  by (simp add: pow2_def power_int_def inverse_eq_divide power_divide)

lemma roundDouble_binary64:
  assumes "x \<noteq> 0"
  defines "e \<equiv> max (binade x) (- 1022) - 52"
  shows "roundDouble x = real_of_int (roundHalfEven (x / pow2 e)) * pow2 e
         \<and> \<bar>roundHalfEven (x / pow2 e)\<bar> \<le> 2 ^ 53 \<and> - 1074 \<le> e"
proof -
  let ?q = "x / pow2 e"
  have p: "0 < pow2 e" by (rule pow2_pos)
  have "binade x + 1 \<le> e + 53" by (simp add: e_def)
  then have "(2::real) powi (binade x + 1) \<le> 2 powi (e + 53)"
    by (intro power_int_increasing) simp_all
  also have "(2::real) powi (e + 53) = 2 powi e * 2 powi 53"
    by (rule power_int_add) simp
  finally have "pow2 (binade x + 1) \<le> pow2 e * 2 ^ 53"
    by (simp add: pow2_powi)
  with binade_bounds [OF assms(1)] have "\<bar>x\<bar> < pow2 e * 2 ^ 53" by linarith
  then have "\<bar>x\<bar> / pow2 e < 2 ^ 53"
    using p by (simp add: field_simps)
  then have q: "\<bar>?q\<bar> < 2 ^ 53"
    using p by (simp add: abs_divide)
  have "\<bar>real_of_int (roundHalfEven ?q)\<bar> \<le> \<bar>?q\<bar> + 1 / 2"
    using roundHalfEven_near [of ?q] by linarith
  with q have "\<bar>real_of_int (roundHalfEven ?q)\<bar> < 2 ^ 53 + 1"
    by linarith
  then have "real_of_int \<bar>roundHalfEven ?q\<bar> < real_of_int (2 ^ 53 + 1)"
    by simp
  then have "\<bar>roundHalfEven ?q\<bar> < 2 ^ 53 + 1"
    by (simp only: of_int_less_iff)
  then have k: "\<bar>roundHalfEven ?q\<bar> \<le> 2 ^ 53" by simp
  have "roundDouble x = real_of_int (roundHalfEven ?q) * pow2 e"
    using assms(1) by (simp add: roundDouble_def Let_def e_def)
  moreover have "- 1074 \<le> e" by (simp add: e_def)
  ultimately show ?thesis using k by simp
qed

text \<open>
  1.5 GW at a load factor of 15: the quotient \<open>15 / 100\<close> is the binary64 value just
  below 0.15, the product with 1.5 the value just below 0.225, a hundred times that the
  value just below 22.5, which rounds to 22.  Multiplying first gives 22.5 exactly, then
  0.225 rounded up, and 23.
\<close>

lemma quotient_15: "jsDiv (Num 15) (Num 100) = Num (5404319552844595 / 36028797018963968)"
  by (simp add: fl_eval)

lemma product_15: 
  "jsMul (Num (3 / 2)) (Num (5404319552844595 / 36028797018963968))
     = Num (2026619832316723 / 9007199254740992)"
  by (simp add: fl_eval)

lemma hundredfold_15:
  "jsMul (Num (2026619832316723 / 9007199254740992)) (Num 100)
     = Num (6333186975989759 / 281474976710656)"
  by (simp add: fl_eval)

lemma round_15: "MathRound (Num (6333186975989759 / 281474976710656)) = Num 22"
  by simp

lemma hundredth_22: "jsDiv (Num 22) (Num 100) = Num (7926335344172073 / 36028797018963968)"
  by (simp add: fl_eval)

lemma hundredth_23: "jsDiv (Num 23) (Num 100) = Num (8286623314361713 / 36028797018963968)"
  by (simp add: fl_eval)

lemma rated_15:
  "round2 (jsMul (Num (3 / 2)) (jsDiv (Num 15) (Num 100))) = jsDiv (Num 22) (Num 100)"
  unfolding round2_def quotient_15 product_15 hundredfold_15 round_15 ..

lemma product_first_15: "jsMul (Num (3 / 2)) (Num 15) = Num (45 / 2)"
  by (simp add: fl_eval)

lemma quotient_first_15: "jsDiv (Num (45 / 2)) (Num 100) = Num (8106479329266893 / 36028797018963968)"
  by (simp add: fl_eval)

lemma hundredfold_first_15:
  "jsMul (Num (8106479329266893 / 36028797018963968)) (Num 100) = Num (45 / 2)"
  by (simp add: fl_eval)

lemma round_first_15: "MathRound (Num (45 / 2)) = Num 23"
  by simp

lemma rated_first_15:
  "round2 (jsDiv (jsMul (Num (3 / 2)) (Num 15)) (Num 100)) = jsDiv (Num 23) (Num 100)"
  unfolding round2_def product_first_15 quotient_first_15 hundredfold_first_15 round_first_15 ..

text \<open>
  Other values, the inputs being the binary64 values of 0.1, 0.7 and 1.005: 0.1 GW at a
  load factor of 35 has the rated capacity 0.03, and 0.04 when the product is taken
  first; 0.7 GW at 15 has 0.11; \<open>round2\<close> of 1.005 is 1.
\<close>

lemma tenth: "jsDiv (Num 1) (Num 10) = Num (3602879701896397 / 36028797018963968)"
  by (simp add: fl_eval)

lemma seven_tenths: "jsDiv (Num 7) (Num 10) = Num (3152519739159347 / 4503599627370496)"
  by (simp add: fl_eval)

lemma rated_tenth_35:
  "round2 (jsMul (jsDiv (Num 1) (Num 10)) (jsDiv (Num 35) (Num 100))) = jsDiv (Num 3) (Num 100)"
  "round2 (jsDiv (jsMul (jsDiv (Num 1) (Num 10)) (Num 35)) (Num 100)) = jsDiv (Num 4) (Num 100)"
  by (simp_all add: round2_def fl_eval)

lemma rated_seven_tenths_15:
  "round2 (jsMul (jsDiv (Num 7) (Num 10)) (jsDiv (Num 15) (Num 100))) = jsDiv (Num 11) (Num 100)"
  by (simp add: round2_def fl_eval)

lemma round2_1005:
  "round2 (jsDiv (Num 1005) (Num 1000)) = Num 1"
  by (simp add: round2_def fl_eval)

text \<open>
  1 GW at a load factor of 0.5 for coal and for oil and gas, nothing for the other
  sources: each of the two has the rated capacity 0.01 and the total is 0.02, while the
  sum of the unrounded products is 0.01, and its own rounding.
\<close>

lemma safeNum_Num: "safeNum (VNum (Num x)) = x"
  by (simp add: safeNum_def)

lemma half_percent:
  "jsDiv (Num (1 / 2)) (Num 100) = Num (5764607523034235 / 1152921504606846976)"
  by (simp add: fl_eval)

lemma product_half_percent:
  "jsMul (Num 1) (Num (5764607523034235 / 1152921504606846976))
     = Num (5764607523034235 / 1152921504606846976)"
  "jsMul (Num 0) (Num (5764607523034235 / 1152921504606846976)) = Num 0"
  by (simp_all add: fl_eval)

lemma hundredfold_half_percent:
  "jsMul (Num (5764607523034235 / 1152921504606846976)) (Num 100) = Num (1 / 2)"
  "jsMul (Num 0) (Num 100) = Num 0"
  "jsMul (Num (5764607523034235 / 576460752303423488)) (Num 100) = Num 1"
  by (simp_all add: fl_eval)

lemma hundredths:
  "jsDiv (Num 1) (Num 100) = Num (5764607523034235 / 576460752303423488)"
  "jsDiv (Num 2) (Num 100) = Num (5764607523034235 / 288230376151711744)"
  "jsDiv (Num 0) (Num 100) = Num 0"
  by (simp_all add: fl_eval)

lemma sums_of_hundredths:
  "jsAdd (Num 0) (Num 0) = Num 0"
  "jsAdd (Num 0) (Num (5764607523034235 / 576460752303423488))
     = Num (5764607523034235 / 576460752303423488)"
  "jsAdd (Num (5764607523034235 / 576460752303423488)) (Num (5764607523034235 / 576460752303423488))
     = Num (5764607523034235 / 288230376151711744)"
  "jsAdd (Num (5764607523034235 / 288230376151711744)) (Num 0)
     = Num (5764607523034235 / 288230376151711744)"
  "jsAdd (Num 0) (Num (5764607523034235 / 1152921504606846976))
     = Num (5764607523034235 / 1152921504606846976)"
  "jsAdd (Num (5764607523034235 / 1152921504606846976)) (Num (5764607523034235 / 1152921504606846976))
     = Num (5764607523034235 / 576460752303423488)"
  "jsAdd (Num (5764607523034235 / 576460752303423488)) (Num 0)
     = Num (5764607523034235 / 576460752303423488)"
  by (simp_all add: fl_eval)

lemma rated_half_percent:
  "round2 (jsMul (Num 1) (jsDiv (Num (1 / 2)) (Num 100))) = Num (5764607523034235 / 576460752303423488)"
  "round2 (jsMul (Num 0) (jsDiv (Num (1 / 2)) (Num 100))) = Num 0"
  by (simp_all add: round2_def half_percent product_half_percent hundredfold_half_percent hundredths)

lemma total_two_plants:
  "ratedTotal (\<lambda>s. Num (if s = Coal \<or> s = OilGas then 1 else 0)) (\<lambda>s. Num (1 / 2))
     = jsDiv (Num 2) (Num 100)"
  by (simp add: ratedTotal_fold SOURCES_def safeNum_Num rated_half_percent sums_of_hundredths hundredths)

lemma rounded_sum_two_plants:
  "round2 (foldl (\<lambda>acc s. jsAdd acc (jsMul (Num (if s = Coal \<or> s = OilGas then 1 else 0))
                                            (jsDiv (Num (1 / 2)) (Num 100))))
            (Num 0) SOURCES)
     = jsDiv (Num 1) (Num 100)"
  by (simp add: SOURCES_def half_percent product_half_percent sums_of_hundredths round2_def
      hundredfold_half_percent hundredths)

text \<open>
  Claim C1, as amended.  The rated capacity of a source is
  \<open>round2(installed * (plf / 100))\<close> in binary64 and in this order: the load factor is
  divided by 100 and rounded, the product with the installed capacity is rounded, and
  \<open>round2(x)\<close> is \<open>Math.round(x * 100) / 100\<close> with both operations rounded.  A value
  that is not a finite number counts as 0.  The total is the sum of the eight rounded
  capacities, added one by one to 0 in the order of \<open>SOURCES\<close>, each addition rounded
  and a capacity that is not finite counted as 0.  It is not the rounding of the sum of
  the unrounded products: with 1 GW at a load factor of 0.5 for coal and for oil and gas
  the total is 0.02, the rounding of the sum 0.01.  With the binary64 values of 0.1 and
  0.7 for the installed capacity, 0.1 GW at a load factor of 35 has the rated capacity
  0.03 and 0.7 GW at 15 has 0.11.
\<close>

theorem rated_capacity_binary64:
  "ratedBySource inst plf s =
     Some (round2 (jsMul (Num (safeNum (VNum (inst s)))) (jsDiv (Num (safeNum (VNum (plf s)))) (Num 100))))
   \<and> round2 x = jsDiv (MathRound (jsMul x (Num 100))) (Num 100)
   \<and> MathRound (Num y) = Num (of_int \<lfloor>y + 1 / 2\<rfloor>)
   \<and> ratedTotal inst plf =
       foldl (\<lambda>acc s. jsAdd acc (Num (safeNum (VNum
                (round2 (jsMul (Num (safeNum (VNum (inst s))))
                               (jsDiv (Num (safeNum (VNum (plf s)))) (Num 100))))))))
         (Num 0) SOURCES
   \<and> length SOURCES = 8 \<and> distinct SOURCES \<and> set SOURCES = UNIV
   \<and> ratedTotal (\<lambda>s. Num (if s = Coal \<or> s = OilGas then 1 else 0)) (\<lambda>s. Num (1 / 2))
       = jsDiv (Num 2) (Num 100)
   \<and> round2 (foldl (\<lambda>acc s. jsAdd acc (jsMul (Num (if s = Coal \<or> s = OilGas then 1 else 0))
                                              (jsDiv (Num (1 / 2)) (Num 100))))
              (Num 0) SOURCES)
       = jsDiv (Num 1) (Num 100)
   \<and> jsDiv (Num 2) (Num 100) \<noteq> jsDiv (Num 1) (Num 100)
   \<and> round2 (jsMul (jsDiv (Num 1) (Num 10)) (jsDiv (Num 35) (Num 100))) = jsDiv (Num 3) (Num 100)
   \<and> round2 (jsMul (jsDiv (Num 7) (Num 10)) (jsDiv (Num 15) (Num 100))) = jsDiv (Num 11) (Num 100)"
proof -
  have "jsDiv (Num 2) (Num 100) \<noteq> jsDiv (Num 1) (Num 100)"
    by (simp add: hundredths)
  then show ?thesis
    using ratedBySource_at [of inst plf s] ratedTotal_fold [of inst plf] SOURCES_all
      total_two_plants rounded_sum_two_plants rated_tenth_35(1) rated_seven_tenths_15
    by (simp add: round2_def)
qed

text \<open>
  Claim C1 as stated fails: for 1.5 GW at a load factor of 15 the program has the rated
  capacity 0.22, while \<open>round2(installed * plf / 100)\<close> is 0.23, whether the product is
  taken first in binary64 or the value is computed exactly (0.225, a tie that goes up).
\<close>

theorem rated_capacity_order_of_operations:
  "ratedBySource (\<lambda>s. Num (3 / 2)) (\<lambda>s. Num 15) Coal = Some (jsDiv (Num 22) (Num 100))
   \<and> round2 (jsDiv (jsMul (Num (3 / 2)) (Num 15)) (Num 100)) = jsDiv (Num 23) (Num 100)
   \<and> real_of_int \<lfloor>3 / 2 * 15 / 100 * 100 + 1 / 2\<rfloor> / 100 = 23 / 100
   \<and> jsDiv (Num 22) (Num 100) = Num (7926335344172073 / 36028797018963968)
   \<and> jsDiv (Num 23) (Num 100) = Num (8286623314361713 / 36028797018963968)"
proof -
  have "ratedBySource (\<lambda>s. Num (3 / 2)) (\<lambda>s. Num 15) Coal = Some (jsDiv (Num 22) (Num 100))"
    by (simp add: ratedBySource_at safeNum_Num rated_15)
  moreover have "real_of_int \<lfloor>3 / 2 * 15 / 100 * 100 + 1 / 2\<rfloor> / 100 = 23 / 100"
    by simp
  ultimately show ?thesis
    using rated_first_15 hundredth_22 hundredth_23 by simp
qed

subsection \<open>Merging an import into the daily map\<close>

lemma map_of_mapSet: "map_of (mapSet k v m) = (map_of m)(k \<mapsto> v)"
  by (induction m) (auto simp add: fun_eq_iff)

lemma keys_mapSet: "fst ` set (mapSet k v m) = insert k (fst ` set m)"
  by (induction m) auto

lemma distinct_mapSet: "distinct (map fst m) \<Longrightarrow> distinct (map fst (mapSet k v m))"
  by (induction m) (auto simp add: keys_mapSet)

lemma map_of_mergeRecords:
  "map_of (mergeRecords m incoming) = map_of m ++ map_of (rev incoming)"
  unfolding mergeRecords_def
proof (induction incoming arbitrary: m)
  case Nil
  show ?case by simp
next
  case (Cons r rs)
  have "map_of (foldl (\<lambda>next r. mapSet (fst r) (snd r) next) (mapSet (fst r) (snd r) m) rs)
          = map_of (mapSet (fst r) (snd r) m) ++ map_of (rev rs)"
    by (rule Cons.IH)
  also have "\<dots> = map_of m ++ map_of (rev rs @ [r])"
    by (cases r) (simp add: map_of_mapSet map_add_def fun_eq_iff split: option.splits)
  finally show ?case by simp
qed

lemma distinct_mergeRecords:
  "distinct (map fst m) \<Longrightarrow> distinct (map fst (mergeRecords m incoming))"
  unfolding mergeRecords_def
  by (induction incoming arbitrary: m) (simp_all add: distinct_mapSet)

lemma importDailyCSV_merge:
  "importDailyCSV eng prev text = mergeRecords prev (fst (csvParseDaily eng text))"
  by (simp add: importDailyCSV_def mergeRecords_def split: prod.splits)

lemma merge_untouched:
  assumes "d \<notin> fst ` set incoming"
  shows "map_of (mergeRecords m incoming) d = map_of m d"
proof -
  from assms have "map_of (rev incoming) d = None"
    by (simp add: map_of_eq_None_iff)
  then show ?thesis
    by (simp add: map_of_mergeRecords map_add_def)
qed

lemma merge_last_wins:
  assumes "incoming = xs @ (d, v) # ys" and "d \<notin> fst ` set ys"
  shows "map_of (mergeRecords m incoming) d = Some v"
proof -
  from assms(2) have "map_of (rev ys) d = None"
    by (simp add: map_of_eq_None_iff)
  then have "map_of (rev incoming) d = Some v"
    by (simp add: assms(1) map_add_def)
  then show ?thesis
    by (simp add: map_of_mergeRecords map_add_def)
qed

lemma merge_dom:
  "dom (map_of (mergeRecords m incoming)) = dom (map_of m) \<union> fst ` set incoming"
  by (auto simp add: map_of_mergeRecords dom_map_of_conv_image_fst)

text \<open>
  Claim C10.  Merging imported records into the daily map leaves the entry at every date
  that does not occur in the import as it was; a date that occurs gets the value of its
  last occurrence; the dates of the result are those of the map and those of the import,
  so none is removed; and the import of a file is this merge of the rows that parsed.
\<close>

theorem merge_frame:
  "(d \<notin> fst ` set incoming \<longrightarrow> map_of (mergeRecords m incoming) d = map_of m d)
   \<and> (\<forall>xs v ys. incoming = xs @ (d, v) # ys \<and> d \<notin> fst ` set ys
         \<longrightarrow> map_of (mergeRecords m incoming) d = Some v)
   \<and> dom (map_of (mergeRecords m incoming)) = dom (map_of m) \<union> fst ` set incoming
   \<and> importDailyCSV eng m text = mergeRecords m (fst (csvParseDaily eng text))"
proof (intro conjI allI impI)
  show "map_of (mergeRecords m incoming) d = map_of m d" if "d \<notin> fst ` set incoming"
    using that by (rule merge_untouched)
  show "map_of (mergeRecords m incoming) d = Some v"
    if "incoming = xs @ (d, v) # ys \<and> d \<notin> fst ` set ys" for xs v ys
    using that merge_last_wins by blast
  show "dom (map_of (mergeRecords m incoming)) = dom (map_of m) \<union> fst ` set incoming"
    by (rule merge_dom)
  show "importDailyCSV eng m text = mergeRecords m (fst (csvParseDaily eng text))"
    by (rule importDailyCSV_merge)
qed

theorem merge_frame_witness:
  "js ''2025-12-19'' \<notin> fst ` set [(js ''2025-12-18'', 2), (js ''2025-12-18'', 3)]
   \<and> map_of (mergeRecords [(js ''2025-12-19'', 1), (js ''2025-12-18'', 1)]
               [(js ''2025-12-18'', 2), (js ''2025-12-18'', 3)]) (js ''2025-12-19'') = Some 1
   \<and> map_of (mergeRecords [(js ''2025-12-19'', 1), (js ''2025-12-18'', 1)]
               [(js ''2025-12-18'', 2), (js ''2025-12-18'', 3)]) (js ''2025-12-18'') = Some 3"
proof -
  let ?m = "[(js ''2025-12-19'', 1), (js ''2025-12-18'', 1 :: real)]"
  let ?inc = "[(js ''2025-12-18'', 2), (js ''2025-12-18'', 3 :: real)]"
  have a: "js ''2025-12-19'' \<notin> fst ` set ?inc"
    by (simp add: js_def)
  have b: "?inc = [(js ''2025-12-18'', 2)] @ (js ''2025-12-18'', 3) # [] \<and> js ''2025-12-18'' \<notin> fst ` set []"
    by simp
  from a merge_frame [of "js ''2025-12-19''" ?inc ?m]
  have 1: "map_of (mergeRecords ?m ?inc) (js ''2025-12-19'') = map_of ?m (js ''2025-12-19'')"
    by blast
  from b merge_frame [of "js ''2025-12-18''" ?inc ?m]
  have 2: "map_of (mergeRecords ?m ?inc) (js ''2025-12-18'') = Some 3"
    by blast
  from a 1 2 show ?thesis by simp
qed

subsection \<open>The axis domain\<close>










subsection \<open>Regular expressions and shapes\<close>

lemma rxGroups_fixed:
  "rxGroups (Digits n n # r) s =
     (if n \<le> length s \<and> list_all isDigit (take n s)
      then map_option (\<lambda>gs. take n s # gs) (rxGroups r (drop n s)) else None)"
  by (simp split: option.splits)

lemma list_all2_digit_slots:
  "list_all2 (\<lambda>P c. P c) (replicate n isDigit @ ps) t \<longleftrightarrow>
     n \<le> length t \<and> list_all isDigit (take n t) \<and> list_all2 (\<lambda>P c. P c) ps (drop n t)"
proof (induction n arbitrary: t)
  case 0
  show ?case by simp
next
  case (Suc n)
  show ?case
  proof (cases t)
    case Nil
    then show ?thesis by simp
  next
    case (Cons x xs)
    then show ?thesis by (auto simp add: Suc.IH)
  qed
qed

lemma rxGroups_slots:
  "rxFixed r \<Longrightarrow> rxGroups r t \<noteq> None \<longleftrightarrow> list_all2 (\<lambda>P c. P c) (rxSlots r) t"
proof (induction r arbitrary: t rule: rxSlots.induct)
  case 1
  show ?case by simp
next
  case (2 lo hi r)
  from "2.prems" have eq: "hi = lo" and fx: "rxFixed r" by simp_all
  have "rxGroups (Digits lo lo # r) t \<noteq> None \<longleftrightarrow>
          lo \<le> length t \<and> list_all isDigit (take lo t) \<and> rxGroups r (drop lo t) \<noteq> None"
    unfolding rxGroups_fixed by auto
  also have "\<dots> \<longleftrightarrow> lo \<le> length t \<and> list_all isDigit (take lo t)
                  \<and> list_all2 (\<lambda>P c. P c) (rxSlots r) (drop lo t)"
    using "2.IH" [OF fx, of "drop lo t"] by simp
  also have "\<dots> \<longleftrightarrow> list_all2 (\<lambda>P c. P c) (rxSlots (Digits lo lo # r)) t"
    unfolding rxSlots.simps list_all2_digit_slots by simp
  finally show ?case unfolding eq .
next
  case (3 c r)
  from "3.prems" have fx: "rxFixed r" by simp
  show ?case
  proof (cases t)
    case Nil
    then show ?thesis by simp
  next
    case (Cons x xs)
    with "3.IH" [OF fx, of xs] show ?thesis by simp
  qed
qed

lemma firstSome_SomeD: "firstSome f ks = Some y \<Longrightarrow> \<exists>k \<in> set ks. f k = Some y"
  by (induction ks) (auto split: option.splits)

lemma rxGroups_bounds:
  "rxGroups r t = Some gs \<Longrightarrow> list_all2 digitRun (rxBounds r) gs"
proof (induction r arbitrary: t gs rule: rxBounds.induct)
  case 1
  then show ?case by (simp split: if_splits)
next
  case (2 lo hi r)
  have "rxGroups (Digits lo hi # r) t =
          firstSome
            (\<lambda>k. if k \<le> length t \<and> list_all isDigit (take k t)
                  then map_option (\<lambda>gs. take k t # gs) (rxGroups r (drop k t)) else None)
            (rev [lo..<Suc hi])"
    by (rule rxGroups.simps)
  with "2.prems" have "\<exists>k \<in> set (rev [lo..<Suc hi]).
      (if k \<le> length t \<and> list_all isDigit (take k t)
       then map_option (\<lambda>gs. take k t # gs) (rxGroups r (drop k t)) else None) = Some gs"
    by (intro firstSome_SomeD) simp
  then obtain k where k: "lo \<le> k" "k \<le> hi"
      and f: "(if k \<le> length t \<and> list_all isDigit (take k t)
               then map_option (\<lambda>gs. take k t # gs) (rxGroups r (drop k t)) else None) = Some gs"
    by auto
  from f obtain gs' where "k \<le> length t" "list_all isDigit (take k t)"
      "rxGroups r (drop k t) = Some gs'" "gs = take k t # gs'"
    by (auto split: if_splits)
  with k "2.IH" [of "drop k t" gs'] show ?case
    by (simp add: digitRun_def)
next
  case (3 c r)
  then show ?case
    by (cases t) (auto split: if_splits)
qed


lemma shape_slots: "shapeMatches pat t \<longleftrightarrow> list_all2 (\<lambda>P c. P c) (map slotOK pat) t"
  by (simp add: shapeMatches_def list_all2_map1)

lemma slot_letters:
  "slotOK CHR ''D'' = isDigit" "slotOK CHR ''M'' = isDigit" "slotOK CHR ''Y'' = isDigit"
  "slotOK CHR ''/'' = (\<lambda>x. x = slash)" "slotOK CHR ''-'' = (\<lambda>x. x = hyphen)"
  by (simp_all add: fun_eq_iff slotOK_def isShapeLetter_def)

lemma rxTest_shape:
  "rxFixed r \<Longrightarrow> rxSlots r = map slotOK pat \<Longrightarrow> rxTest r t \<longleftrightarrow> shapeMatches pat t"
  using rxGroups_slots [of r t] by (simp add: rxTest_def shape_slots)

lemma rxTest_DMYSlash: "rxTest rxDMYSlash t \<longleftrightarrow> shapeMatches ''DD/MM/YYYY'' t"
  by (rule rxTest_shape) (simp_all add: rxDMYSlash_def slot_letters eval_nat_numeral)

lemma rxTest_DMYHyphen: "rxTest rxDMYHyphen t \<longleftrightarrow> shapeMatches ''DD-MM-YYYY'' t"
  by (rule rxTest_shape) (simp_all add: rxDMYHyphen_def slot_letters eval_nat_numeral)

lemma rxTest_ISO: "rxTest rxISO t \<longleftrightarrow> shapeMatches ''YYYY-MM-DD'' t"
  by (rule rxTest_shape) (simp_all add: rxISO_def slot_letters eval_nat_numeral)

lemma rxGroups_one_or_two:
  "rxGroups (Digits 1 2 # r) t \<noteq> None \<longleftrightarrow>
     rxGroups (Digits 2 2 # r) t \<noteq> None \<or> rxGroups (Digits 1 1 # r) t \<noteq> None"
proof -
  have u: "rev [1..<Suc 2] = [2, 1::nat]" "rev [2..<Suc 2] = [2::nat]" "rev [1..<Suc 1] = [1::nat]"
    by (simp_all add: upt_rec)
  show ?thesis
    unfolding rxGroups.simps u by (auto split: option.splits if_splits)
qed

lemma rxTest_MonthYear:
  "rxTest rxMonthYear t \<longleftrightarrow> shapeMatches ''M/YYYY'' t \<or> shapeMatches ''MM/YYYY'' t"
proof -
  have a: "rxTest [Digits 2 2, Lit slash, Digits 4 4] t \<longleftrightarrow> shapeMatches ''MM/YYYY'' t"
    by (rule rxTest_shape) (simp_all add: slot_letters eval_nat_numeral)
  have b: "rxTest [Digits 1 1, Lit slash, Digits 4 4] t \<longleftrightarrow> shapeMatches ''M/YYYY'' t"
    by (rule rxTest_shape) (simp_all add: slot_letters eval_nat_numeral)
  have "rxTest rxMonthYear t \<longleftrightarrow>
          rxTest [Digits 2 2, Lit slash, Digits 4 4] t \<or> rxTest [Digits 1 1, Lit slash, Digits 4 4] t"
    unfolding rxTest_def rxMonthYear_def by (rule rxGroups_one_or_two)
  with a b show ?thesis by blast
qed

lemma rxExec_None: "rxExec r t = None \<longleftrightarrow> \<not> rxTest r t"
  by (simp add: rxExec_def rxTest_def)

lemma shape_not_empty: "pat \<noteq> [] \<Longrightarrow> \<not> shapeMatches pat []"
  by (simp add: shapeMatches_def)

lemma normalizeMonth_None:
  "normalizeMonth raw = None \<longleftrightarrow> \<not> list_ex (\<lambda>p. shapeMatches p (trim raw)) monthShapes"
proof (cases "trim raw = []")
  case True
  then show ?thesis
    by (simp add: normalizeMonth_def monthShapes_def shape_not_empty)
next
  case False
  then have "normalizeMonth raw = None \<longleftrightarrow>
      rxExec rxMonthYear (trim raw) = None \<and> rxExec rxDMYSlash (trim raw) = None
      \<and> rxExec rxDMYHyphen (trim raw) = None \<and> rxExec rxISO (trim raw) = None"
    by (simp add: normalizeMonth_def Let_def split: option.splits)
  then show ?thesis
    unfolding rxExec_None rxTest_MonthYear rxTest_DMYSlash rxTest_DMYHyphen rxTest_ISO
    by (simp add: monthShapes_def)
qed


subsection \<open>Digit strings as numbers\<close>

lemma digit_not_space: "isDigit c \<Longrightarrow> \<not> isStrWhiteSpaceChar c"
  by (simp add: isDigit_def isStrWhiteSpaceChar_def)

lemma dropWhile_id: "s \<noteq> [] \<Longrightarrow> \<not> P (hd s) \<Longrightarrow> dropWhile P s = s"
  by (cases s) simp_all

lemma trim_id:
  assumes "s \<noteq> []" "\<not> isStrWhiteSpaceChar (hd s)" "\<not> isStrWhiteSpaceChar (last s)"
  shows "trim s = s"
proof -
  have "dropWhile isStrWhiteSpaceChar s = s"
    using assms by (simp add: dropWhile_id)
  moreover have "dropWhile isStrWhiteSpaceChar (rev s) = rev s"
    using assms by (simp add: dropWhile_id hd_rev)
  ultimately show ?thesis by (simp add: trim_def)
qed

lemma trim_digits: "s \<noteq> [] \<Longrightarrow> list_all isDigit s \<Longrightarrow> trim s = s"
  by (rule trim_id) (auto simp add: list_all_iff digit_not_space)

lemma radixValue_snoc: "radixValue b (s @ [c]) = b * radixValue b s + digitValue c"
  by (simp add: radixValue_def)

lemma radixValue_bound: "list_all isDigit s \<Longrightarrow> radixValue 10 s < 10 ^ length s"
proof (induction s rule: rev_induct)
  case Nil
  show ?case by (simp add: radixValue_def)
next
  case (snoc c s)
  then have "radixValue 10 s < 10 ^ length s" and "digitValue c \<le> 9"
    by (auto simp add: isDigit_def digitValue_def)
  then show ?case
    by (simp add: radixValue_snoc)
qed

lemma nonDecimal_digits: "list_all isDigit s \<Longrightarrow> nonDecimalIntegerLiteral s = None"
  by (auto simp add: nonDecimalIntegerLiteral_def isDigit_def split: list.splits)

lemma strUnsigned_digits:
  assumes "s \<noteq> []" "list_all isDigit s"
  shows "strUnsignedDecimalLiteral s = Some (toDouble (real (radixValue 10 s)))"
proof -
  have "hd s \<noteq> hd (js ''Infinity'')"
    using assms by (cases s) (auto simp add: js_def isDigit_def)
  then have ne: "s \<noteq> js ''Infinity''" by auto
  have tw: "takeWhile isDigit s = s" "dropWhile isDigit s = []"
    using assms(2) by (simp_all add: list_all_iff)
  show ?thesis
    using ne assms(1)
    by (simp add: strUnsignedDecimalLiteral_def tw exponentPart_def radixValue_def)
qed

lemma StringToNumber_digits:
  assumes "s \<noteq> []" "list_all isDigit s" "length s \<le> 4"
  shows "StringToNumber s = Num (real (radixValue 10 s))"
proof -
  have "radixValue 10 s < 10 ^ length s"
    using assms(2) by (rule radixValue_bound)
  also have "\<dots> \<le> 10 ^ 4"
    using assms(3) power_increasing [of "length s" 4 "10::nat"] by simp
  finally have small: "real (radixValue 10 s) < 10000"
    by simp
  have "(10000 :: real) < 2 ^ 1024 - 2 ^ 970" by simp
  with small have d: "toDouble (real (radixValue 10 s)) = Num (real (radixValue 10 s))"
    by (simp add: toDouble_def)
  have sign: "hd s \<noteq> 43 \<and> hd s \<noteq> 45"
    using assms(1,2) by (cases s) (auto simp add: isDigit_def)
  then have "strDecimalLiteral s = strUnsignedDecimalLiteral s"
    using assms(1) by (cases s) (simp_all add: strDecimalLiteral_def)
  then show ?thesis
    using assms(1,2)
    by (simp add: StringToNumber_def trim_digits nonDecimal_digits strUnsigned_digits d)
qed

lemma numberToString_nat:
  "n < 10 ^ 21 \<Longrightarrow> numberToString (Num (real n)) = digitsOf n"
proof -
  assume "n < 10 ^ 21"
  then have "real n < 10 ^ 21"
    by (metis of_nat_less_iff of_nat_numeral of_nat_power)
  then show ?thesis
    by (simp add: numberToString_def)
qed

lemma digitsOf_one: "n < 10 \<Longrightarrow> digitsOf n = [48 + n]"
  by (simp add: digitsOf.simps [of n])

lemma digitsOf_two:
  assumes "10 \<le> n" "n < 100"
  shows "digitsOf n = [48 + n div 10, 48 + n mod 10]"
proof -
  from assms have "n div 10 < 10" by simp
  then have "digitsOf (n div 10) = [48 + n div 10]" by (rule digitsOf_one)
  with assms(1) show ?thesis
    by (simp add: digitsOf.simps [of n])
qed

lemma padStart_two_digits:
  assumes "n < 100"
  shows "length (padStart 2 digit0 (digitsOf n)) = 2 \<and> list_all isDigit (padStart 2 digit0 (digitsOf n))"
proof (cases "n < 10")
  case True
  then show ?thesis
    by (simp add: digitsOf_one padStart_def isDigit_def)
next
  case False
  with assms have "n div 10 < 10" "n mod 10 < 10" by simp_all
  with False assms show ?thesis
    by (simp add: digitsOf_two padStart_def isDigit_def)
qed


subsection \<open>The result of normalizeMonth\<close>

lemma list_all2_digits_only:
  "list_all2 (\<lambda>P c. P c) (replicate n isDigit) b \<longleftrightarrow> length b = n \<and> list_all isDigit b"
  using list_all2_digit_slots [of n "[]" b] by auto

lemma shape_MMYYYY_intro:
  assumes "length a = 2" "list_all isDigit a" "length b = 4" "list_all isDigit b"
  shows "shapeMatches ''MM/YYYY'' (a @ [slash] @ b)"
proof -
  have "map slotOK ''MM/YYYY'' = replicate 2 isDigit @ ((\<lambda>x. x = slash) # replicate 4 isDigit)"
    by (simp add: slot_letters eval_nat_numeral)
  then have "shapeMatches ''MM/YYYY'' (a @ [slash] @ b) \<longleftrightarrow>
      list_all2 (\<lambda>P c. P c) (replicate 2 isDigit @ ((\<lambda>x. x = slash) # replicate 4 isDigit)) (a @ [slash] @ b)"
    unfolding shape_slots by simp
  also have "\<dots>"
    unfolding list_all2_digit_slots using assms by (simp add: list_all2_digits_only)
  finally show ?thesis .
qed

lemma groups2:
  assumes "rxExec [Digits a b, Lit c, Digits d e] t = Some m"
  shows "\<exists>g1 g2. m = [t, g1, g2] \<and> digitRun (a, b) g1 \<and> digitRun (d, e) g2"
proof -
  from assms obtain gs where gs: "rxGroups [Digits a b, Lit c, Digits d e] t = Some gs" "m = t # gs"
    by (auto simp add: rxExec_def)
  from rxGroups_bounds [OF gs(1)] have "list_all2 digitRun [(a, b), (d, e)] gs"
    by simp
  with gs(2) show ?thesis
    by (auto simp add: list_all2_Cons1)
qed

lemma groups3:
  assumes "rxExec [Digits a b, Lit c, Digits d e, Lit c', Digits f g] t = Some m"
  shows "\<exists>g1 g2 g3. m = [t, g1, g2, g3] \<and> digitRun (a, b) g1 \<and> digitRun (d, e) g2 \<and> digitRun (f, g) g3"
proof -
  from assms obtain gs where gs:
      "rxGroups [Digits a b, Lit c, Digits d e, Lit c', Digits f g] t = Some gs" "m = t # gs"
    by (auto simp add: rxExec_def)
  from rxGroups_bounds [OF gs(1)] have "list_all2 digitRun [(a, b), (d, e), (f, g)] gs"
    by simp
  with gs(2) show ?thesis
    by (auto simp add: list_all2_Cons1)
qed

lemma month_group_padded:
  assumes "digitRun (1, 2) g"
  shows "length (padStart 2 digit0 (numberToString (Number (VStr g)))) = 2
         \<and> list_all isDigit (padStart 2 digit0 (numberToString (Number (VStr g))))"
proof -
  from assms have g: "g \<noteq> []" "list_all isDigit g" "length g \<le> 2"
    by (auto simp add: digitRun_def)
  then have n: "Number (VStr g) = Num (real (radixValue 10 g))"
    by (simp add: StringToNumber_digits)
  have "radixValue 10 g < 10 ^ length g"
    using g(2) by (rule radixValue_bound)
  also have "\<dots> \<le> 10 ^ 2"
    using g(3) power_increasing [of "length g" 2 "10::nat"] by simp
  finally have small: "radixValue 10 g < 100" by simp
  then have "numberToString (Num (real (radixValue 10 g))) = digitsOf (radixValue 10 g)"
    by (intro numberToString_nat) simp
  with n padStart_two_digits [OF small] show ?thesis by simp
qed

lemma normalizeMonth_Some:
  assumes "normalizeMonth raw = Some r"
  shows "shapeMatches ''MM/YYYY'' r"
proof -
  let ?t = "trim raw"
  from assms have ne: "?t \<noteq> []"
    by (auto simp add: normalizeMonth_def Let_def split: if_splits)
  consider
      (m1) m where "rxExec rxMonthYear ?t = Some m"
        "r = padStart 2 digit0 (numberToString (Number (VStr (m ! 1)))) @ [slash] @ m ! 2"
    | (dmy1) m where "rxExec rxDMYSlash ?t = Some m" "r = m ! 2 @ [slash] @ m ! 3"
    | (dmy2) m where "rxExec rxDMYHyphen ?t = Some m" "r = m ! 2 @ [slash] @ m ! 3"
    | (isoM) m where "rxExec rxISO ?t = Some m" "r = m ! 2 @ [slash] @ m ! 1"
    using assms ne by (auto simp add: normalizeMonth_def Let_def split: option.splits)
  then show ?thesis
  proof cases
    case m1
    from groups2 [OF m1(1) [unfolded rxMonthYear_def]]
    obtain g1 g2 where m: "m = [?t, g1, g2]" and g: "digitRun (1, 2) g1" "digitRun (4, 4) g2" by blast
    let ?p = "padStart 2 digit0 (numberToString (Number (VStr g1)))"
    from month_group_padded [OF g(1)] have "length ?p = 2" "list_all isDigit ?p" by simp_all
    moreover from g(2) have "length g2 = 4" "list_all isDigit g2" by (simp_all add: digitRun_def)
    ultimately have "shapeMatches ''MM/YYYY'' (?p @ [slash] @ g2)" by (rule shape_MMYYYY_intro)
    moreover from m1(2) m have "r = ?p @ [slash] @ g2" by simp
    ultimately show ?thesis by simp
  next
    case dmy1
    from groups3 [OF dmy1(1) [unfolded rxDMYSlash_def]]
    obtain g1 g2 g3 where m: "m = [?t, g1, g2, g3]" and g: "digitRun (2, 2) g2" "digitRun (4, 4) g3" by blast
    from g have "length g2 = 2" "list_all isDigit g2" "length g3 = 4" "list_all isDigit g3"
      by (simp_all add: digitRun_def)
    then have "shapeMatches ''MM/YYYY'' (g2 @ [slash] @ g3)" by (rule shape_MMYYYY_intro)
    moreover from dmy1(2) m have "r = g2 @ [slash] @ g3" by simp
    ultimately show ?thesis by simp
  next
    case dmy2
    from groups3 [OF dmy2(1) [unfolded rxDMYHyphen_def]]
    obtain g1 g2 g3 where m: "m = [?t, g1, g2, g3]" and g: "digitRun (2, 2) g2" "digitRun (4, 4) g3" by blast
    from g have "length g2 = 2" "list_all isDigit g2" "length g3 = 4" "list_all isDigit g3"
      by (simp_all add: digitRun_def)
    then have "shapeMatches ''MM/YYYY'' (g2 @ [slash] @ g3)" by (rule shape_MMYYYY_intro)
    moreover from dmy2(2) m have "r = g2 @ [slash] @ g3" by simp
    ultimately show ?thesis by simp
  next
    case isoM
    from groups3 [OF isoM(1) [unfolded rxISO_def]]
    obtain g1 g2 g3 where m: "m = [?t, g1, g2, g3]" and g: "digitRun (4, 4) g1" "digitRun (2, 2) g2" by blast
    from g have "length g2 = 2" "list_all isDigit g2" "length g1 = 4" "list_all isDigit g1"
      by (simp_all add: digitRun_def)
    then have "shapeMatches ''MM/YYYY'' (g2 @ [slash] @ g1)" by (rule shape_MMYYYY_intro)
    moreover from isoM(2) m have "r = g2 @ [slash] @ g1" by simp
    ultimately show ?thesis by simp
  qed
qed

lemma digitValue_digit: "isDigit c \<Longrightarrow> 48 + digitValue c = c \<and> digitValue c < 10"
  by (auto simp add: isDigit_def digitValue_def)

lemma padStart_digitsOf:
  assumes "s \<noteq> []" "list_all isDigit s"
  shows "padStart (length s) digit0 (digitsOf (radixValue 10 s)) = s"
  using assms
proof (induction s rule: rev_nonempty_induct)
  case (single c)
  then have "48 + digitValue c = c" "digitValue c < 10"
    by (simp_all add: digitValue_digit)
  then show ?case
    by (simp add: radixValue_def digitsOf_one padStart_def)
next
  case (snoc c s)
  then have c: "48 + digitValue c = c" "digitValue c < 10"
    and ih: "padStart (length s) digit0 (digitsOf (radixValue 10 s)) = s"
    by (simp_all add: digitValue_digit)
  let ?n = "radixValue 10 s"
  show ?case
  proof (cases "?n = 0")
    case True
    have "digitsOf (0::nat) = [48]" by (simp add: digitsOf_one)
    with ih True have 1: "replicate (length s - 1) digit0 @ [digit0] = s"
      by (simp add: padStart_def)
    have k: "Suc (length s - 1) = length s"
      using snoc(1) by (cases s) simp_all
    have "replicate (length s) digit0 = replicate (Suc (length s - 1)) digit0"
      by (simp only: k)
    also have "\<dots> = replicate (length s - 1) digit0 @ [digit0]"
      by (simp only: replicate_Suc replicate_append_same)
    also have "\<dots> = s"
      by (fact 1)
    finally have "replicate (length s) digit0 = s" .
    then have "replicate (length s) digit0 @ [c] = s @ [c]" by simp
    moreover have "digitsOf (radixValue 10 (s @ [c])) = [c]"
      using c True by (simp add: radixValue_snoc digitsOf_one)
    ultimately show ?thesis
      by (simp add: padStart_def)
  next
    case False
    then have big: "\<not> 10 * ?n + digitValue c < 10" by simp
    have "(10 * ?n + digitValue c) div 10 = ?n" "(10 * ?n + digitValue c) mod 10 = digitValue c"
      using c(2) by simp_all
    then have "digitsOf (10 * ?n + digitValue c) = digitsOf ?n @ [c]"
      using big c(1) by (simp add: digitsOf.simps [of "10 * ?n + digitValue c"])
    then have "padStart (length (s @ [c])) digit0 (digitsOf (radixValue 10 (s @ [c])))
        = padStart (length s) digit0 (digitsOf ?n) @ [c]"
      by (simp add: radixValue_snoc padStart_def)
    with ih show ?thesis by simp
  qed
qed

lemma shape3_elim:
  assumes "shapeMatches pat t"
    and "map slotOK pat = replicate n1 isDigit @ (\<lambda>x. x = s1) # replicate n2 isDigit
            @ (\<lambda>x. x = s2) # replicate n3 isDigit"
  obtains a b c where "t = a @ s1 # b @ s2 # c" "length a = n1" "list_all isDigit a"
    "length b = n2" "list_all isDigit b" "length c = n3" "list_all isDigit c"
proof -
  from assms have "list_all2 (\<lambda>P c. P c)
      (replicate n1 isDigit @ (\<lambda>x. x = s1) # replicate n2 isDigit @ (\<lambda>x. x = s2) # replicate n3 isDigit) t"
    unfolding shape_slots by simp
  then have 1: "n1 \<le> length t" "list_all isDigit (take n1 t)"
     and 2: "list_all2 (\<lambda>P c. P c)
        ((\<lambda>x. x = s1) # replicate n2 isDigit @ (\<lambda>x. x = s2) # replicate n3 isDigit) (drop n1 t)"
    unfolding list_all2_digit_slots by simp_all
  from 2 obtain r where r: "drop n1 t = s1 # r"
      "list_all2 (\<lambda>P c. P c) (replicate n2 isDigit @ (\<lambda>x. x = s2) # replicate n3 isDigit) r"
    by (auto simp add: list_all2_Cons1)
  from r(2) have 3: "n2 \<le> length r" "list_all isDigit (take n2 r)"
     and 4: "list_all2 (\<lambda>P c. P c) ((\<lambda>x. x = s2) # replicate n3 isDigit) (drop n2 r)"
    unfolding list_all2_digit_slots by simp_all
  from 4 obtain c where c: "drop n2 r = s2 # c" "length c = n3" "list_all isDigit c"
    by (auto simp add: list_all2_Cons1 list_all2_digits_only)
  have "t = take n1 t @ drop n1 t" by simp
  also have "drop n1 t = s1 # take n2 r @ drop n2 r" by (simp add: r(1))
  finally have "t = take n1 t @ s1 # take n2 r @ s2 # c" by (simp add: c(1))
  moreover have "length (take n1 t) = n1" "length (take n2 r) = n2"
    using 1(1) 3(1) by simp_all
  ultimately show thesis
    using 1(2) 3(2) c(2,3) that by blast
qed

lemma slots_DMYSlash:
  "map slotOK ''DD/MM/YYYY'' = replicate 2 isDigit @ (\<lambda>x. x = slash) # replicate 2 isDigit
     @ (\<lambda>x. x = slash) # replicate 4 isDigit"
  by (simp add: slot_letters eval_nat_numeral)

lemma slots_DMYHyphen:
  "map slotOK ''DD-MM-YYYY'' = replicate 2 isDigit @ (\<lambda>x. x = hyphen) # replicate 2 isDigit
     @ (\<lambda>x. x = hyphen) # replicate 4 isDigit"
  by (simp add: slot_letters eval_nat_numeral)

lemma slots_ISO:
  "map slotOK ''YYYY-MM-DD'' = replicate 4 isDigit @ (\<lambda>x. x = hyphen) # replicate 2 isDigit
     @ (\<lambda>x. x = hyphen) # replicate 2 isDigit"
  by (simp add: slot_letters eval_nat_numeral)

lemma shape_length: "shapeMatches pat t \<Longrightarrow> length t = length pat"
  by (simp add: shapeMatches_def list_all2_lengthD)

lemma shape2_elim:
  assumes "shapeMatches pat t"
    and "map slotOK pat = replicate n1 isDigit @ (\<lambda>x. x = s1) # replicate n2 isDigit"
  obtains a b where "t = a @ s1 # b" "length a = n1" "list_all isDigit a"
    "length b = n2" "list_all isDigit b"
proof -
  from assms have "list_all2 (\<lambda>P c. P c)
      (replicate n1 isDigit @ (\<lambda>x. x = s1) # replicate n2 isDigit) t"
    unfolding shape_slots by simp
  then have 1: "n1 \<le> length t" "list_all isDigit (take n1 t)"
     and 2: "list_all2 (\<lambda>P c. P c) ((\<lambda>x. x = s1) # replicate n2 isDigit) (drop n1 t)"
    unfolding list_all2_digit_slots by simp_all
  from 2 obtain b where b: "drop n1 t = s1 # b" "length b = n2" "list_all isDigit b"
    by (auto simp add: list_all2_Cons1 list_all2_digits_only)
  have "t = take n1 t @ drop n1 t" by simp
  with b(1) have "t = take n1 t @ s1 # b" by simp
  moreover from 1 have "length (take n1 t) = n1" by simp
  ultimately show thesis using 1(2) b(2,3) by (rule that)
qed

lemma slots_MYYYY:
  "map slotOK ''M/YYYY'' = replicate 1 isDigit @ (\<lambda>x. x = slash) # replicate 4 isDigit"
  by (simp add: slot_letters eval_nat_numeral)

lemma slots_MMYYYY:
  "map slotOK ''MM/YYYY'' = replicate 2 isDigit @ (\<lambda>x. x = slash) # replicate 4 isDigit"
  by (simp add: slot_letters eval_nat_numeral)

lemma not_digit_sep: "\<not> isDigit slash" "\<not> isDigit hyphen"
  by (simp_all add: isDigit_def)

lemma rxExec_MonthYear_fields:
  assumes "length a = 1 \<or> length a = 2" "list_all isDigit a" "length b = 4" "list_all isDigit b"
  shows "rxExec rxMonthYear (a @ slash # b) = Some [a @ slash # b, a, b]"
proof -
  have y: "rxGroups [Digits 4 4] b = Some [b]"
    using assms(3,4) by (simp add: rxGroups_fixed del: rxGroups.simps(3))
  from assms(1) show ?thesis
  proof
    assume l: "length a = 1"
    then have "take 2 (a @ slash # b) = a @ [slash]" by simp
    then have n: "\<not> list_all isDigit (take 2 (a @ slash # b))"
      by (simp add: not_digit_sep)
    have "rxGroups (Digits 1 2 # [Lit slash, Digits 4 4]) (a @ slash # b) = Some [a, b]"
      unfolding rxGroups.simps(3) [of 1 2]
      using n l assms(2) y by (simp add: upt_rec del: rxGroups.simps(3))
    then show ?thesis
      by (simp add: rxExec_def rxMonthYear_def del: rxGroups.simps)
  next
    assume l: "length a = 2"
    have "rxGroups (Digits 1 2 # [Lit slash, Digits 4 4]) (a @ slash # b) = Some [a, b]"
      unfolding rxGroups.simps(3) [of 1 2]
      using l assms(2) y by (simp add: upt_rec del: rxGroups.simps(3))
    then show ?thesis
      by (simp add: rxExec_def rxMonthYear_def del: rxGroups.simps)
  qed
qed

lemma rxExec_three_fields:
  assumes "length a = n1" "list_all isDigit a" "length b = n2" "list_all isDigit b"
    "length c = n3" "list_all isDigit c"
  shows "rxExec [Digits n1 n1, Lit s1, Digits n2 n2, Lit s2, Digits n3 n3] (a @ s1 # b @ s2 # c)
     = Some [a @ s1 # b @ s2 # c, a, b, c]"
  using assms by (simp add: rxExec_def rxGroups_fixed del: rxGroups.simps(3))

lemma radixValue_zero_Cons: "radixValue 10 (digit0 # s) = radixValue 10 s"
  by (simp add: radixValue_def digitValue_def)

lemma padStart_month:
  assumes "length g = 1 \<or> length g = 2" "list_all isDigit g"
  shows "padStart 2 digit0 (numberToString (Number (VStr g))) = padStart 2 digit0 g"
proof -
  have g: "g \<noteq> []" "length g \<le> 4" using assms(1) by auto
  then have n: "StringToNumber g = Num (real (radixValue 10 g))"
    using assms(2) by (simp add: StringToNumber_digits)
  have "radixValue 10 g < 10 ^ length g" using assms(2) by (rule radixValue_bound)
  also have "\<dots> \<le> 10 ^ 2" using assms(1) by (auto simp add: power_increasing)
  finally have small: "radixValue 10 g < 100" by simp
  then have "radixValue 10 g < 10 ^ 21" by simp
  then have s: "numberToString (Num (real (radixValue 10 g))) = digitsOf (radixValue 10 g)"
    by (rule numberToString_nat)
  from assms(1) show ?thesis
  proof
    assume l: "length g = 1"
    then obtain c where c: "g = [c]" by (cases g) simp_all
    with assms(2) have "48 + digitValue c = c" "digitValue c < 10"
      by (simp_all add: digitValue_digit)
    then have "digitsOf (radixValue 10 g) = g"
      by (simp add: c radixValue_def digitsOf_one)
    then show ?thesis by (simp add: n s)
  next
    assume l: "length g = 2"
    have "padStart (length g) digit0 (digitsOf (radixValue 10 g)) = g"
      using g(1) assms(2) by (rule padStart_digitsOf)
    then show ?thesis by (simp add: n s l padStart_def)
  qed
qed

lemma padStart_month_value:
  assumes "length g = 1 \<or> length g = 2"
  shows "radixValue 10 (padStart 2 digit0 g) = radixValue 10 g"
    and "length (padStart 2 digit0 g) = 2"
  using assms by (auto simp add: padStart_def radixValue_zero_Cons)

lemma shape_index_2:
  "shapeMatches ''DD/MM/YYYY'' t \<Longrightarrow> t ! 2 = slash"
  "shapeMatches ''DD-MM-YYYY'' t \<Longrightarrow> t ! 2 = hyphen"
  "shapeMatches ''YYYY-MM-DD'' t \<Longrightarrow> isDigit (t ! 2)"
proof -
  have n: "list_all2 slotOK pat t \<Longrightarrow> 2 < length pat \<Longrightarrow> slotOK (pat ! 2) (t ! 2)" for pat
    by (rule list_all2_nthD)
  show "shapeMatches ''DD/MM/YYYY'' t \<Longrightarrow> t ! 2 = slash"
    using n [of "''DD/MM/YYYY''"] by (simp add: shapeMatches_def slot_letters)
  show "shapeMatches ''DD-MM-YYYY'' t \<Longrightarrow> t ! 2 = hyphen"
    using n [of "''DD-MM-YYYY''"] by (simp add: shapeMatches_def slot_letters)
  show "shapeMatches ''YYYY-MM-DD'' t \<Longrightarrow> isDigit (t ! 2)"
    using n [of "''YYYY-MM-DD''"] by (simp add: shapeMatches_def slot_letters)
qed

lemma normalizeMonth_cases:
  assumes "list_ex (\<lambda>p. shapeMatches p (trim raw)) monthShapes"
  obtains mf yf where "monthField (trim raw) = mf" "yearField (trim raw) = yf"
    "length mf = 1 \<or> length mf = 2" "list_all isDigit mf" "length yf = 4" "list_all isDigit yf"
    "normalizeMonth raw = Some (padStart 2 digit0 mf @ [slash] @ yf)"
proof -
  let ?t = "trim raw"
  from assms consider
      (m1) "shapeMatches ''M/YYYY'' ?t" | (m2) "shapeMatches ''MM/YYYY'' ?t"
    | (dmy1) "shapeMatches ''DD/MM/YYYY'' ?t" | (dmy2) "shapeMatches ''DD-MM-YYYY'' ?t"
    | (isoM) "shapeMatches ''YYYY-MM-DD'' ?t"
    by (auto simp add: monthShapes_def)
  then show thesis
  proof cases
    case m1
    then obtain a b where t: "?t = a @ slash # b" and a: "length a = 1" "list_all isDigit a"
        and b: "length b = 4" "list_all isDigit b"
      using slots_MYYYY by (rule shape2_elim)
    have ne: "?t \<noteq> []" by (simp add: t)
    have "rxExec rxMonthYear ?t = Some [?t, a, b]"
      unfolding t using a b by (intro rxExec_MonthYear_fields) simp_all
    then have "normalizeMonth raw = Some (padStart 2 digit0 (numberToString (Number (VStr a))) @ [slash] @ b)"
      using ne by (simp add: normalizeMonth_def Let_def)
    also have "padStart 2 digit0 (numberToString (Number (VStr a))) = padStart 2 digit0 a"
      using a by (intro padStart_month) simp_all
    finally have r: "normalizeMonth raw = Some (padStart 2 digit0 a @ [slash] @ b)" .
    have "monthField ?t = a" "yearField ?t = b"
      using m1 a(1) by (simp_all add: monthField_def yearField_def t)
    then show ?thesis using a b r that by blast
  next
    case m2
    then obtain a b where t: "?t = a @ slash # b" and a: "length a = 2" "list_all isDigit a"
        and b: "length b = 4" "list_all isDigit b"
      using slots_MMYYYY by (rule shape2_elim)
    have ne: "?t \<noteq> []" by (simp add: t)
    have x: "\<not> shapeMatches ''M/YYYY'' ?t"
      using shape_length [OF m2] shape_length [of "''M/YYYY''" ?t] by auto
    have "rxExec rxMonthYear ?t = Some [?t, a, b]"
      unfolding t using a b by (intro rxExec_MonthYear_fields) simp_all
    then have "normalizeMonth raw = Some (padStart 2 digit0 (numberToString (Number (VStr a))) @ [slash] @ b)"
      using ne by (simp add: normalizeMonth_def Let_def)
    also have "padStart 2 digit0 (numberToString (Number (VStr a))) = padStart 2 digit0 a"
      using a by (intro padStart_month) simp_all
    finally have r: "normalizeMonth raw = Some (padStart 2 digit0 a @ [slash] @ b)" .
    have "monthField ?t = a" "yearField ?t = b"
      using m2 x a(1) by (simp_all add: monthField_def yearField_def t)
    then show ?thesis using a b r that by blast
  next
    case dmy1
    then obtain a b c where t: "?t = a @ slash # b @ slash # c"
        and a: "length a = 2" "list_all isDigit a" and b: "length b = 2" "list_all isDigit b"
        and c: "length c = 4" "list_all isDigit c"
      using slots_DMYSlash by (rule shape3_elim)
    have ne: "?t \<noteq> []" by (simp add: t)
    have x: "\<not> shapeMatches ''M/YYYY'' ?t" "\<not> shapeMatches ''MM/YYYY'' ?t"
      using shape_length [OF dmy1] shape_length [of "''M/YYYY''" ?t] shape_length [of "''MM/YYYY''" ?t]
      by auto
    have y: "\<not> shapeMatches ''YYYY-MM-DD'' ?t"
      using shape_index_2(1) [OF dmy1] shape_index_2(3) [of ?t] by (auto simp add: not_digit_sep)
    have e1: "rxExec rxMonthYear ?t = None"
      using x by (simp add: rxExec_None rxTest_MonthYear)
    have e2: "rxExec rxDMYSlash ?t = Some [?t, a, b, c]"
      unfolding t rxDMYSlash_def using a b c by (rule rxExec_three_fields)
    have r: "normalizeMonth raw = Some (padStart 2 digit0 b @ [slash] @ c)"
      using ne b(1) by (simp add: normalizeMonth_def Let_def e1 e2 padStart_def)
    have "monthField ?t = b" "yearField ?t = c"
      using x y a(1) b(1) by (simp_all add: monthField_def yearField_def t)
    then show ?thesis using b c r that by blast
  next
    case dmy2
    then obtain a b c where t: "?t = a @ hyphen # b @ hyphen # c"
        and a: "length a = 2" "list_all isDigit a" and b: "length b = 2" "list_all isDigit b"
        and c: "length c = 4" "list_all isDigit c"
      using slots_DMYHyphen by (rule shape3_elim)
    have ne: "?t \<noteq> []" by (simp add: t)
    have x: "\<not> shapeMatches ''M/YYYY'' ?t" "\<not> shapeMatches ''MM/YYYY'' ?t"
      using shape_length [OF dmy2] shape_length [of "''M/YYYY''" ?t] shape_length [of "''MM/YYYY''" ?t]
      by auto
    have y: "\<not> shapeMatches ''YYYY-MM-DD'' ?t"
      using shape_index_2(2) [OF dmy2] shape_index_2(3) [of ?t] by (auto simp add: not_digit_sep)
    have z: "\<not> shapeMatches ''DD/MM/YYYY'' ?t"
      using shape_index_2(2) [OF dmy2] shape_index_2(1) [of ?t] by auto
    have e1: "rxExec rxMonthYear ?t = None"
      using x by (simp add: rxExec_None rxTest_MonthYear)
    have e2: "rxExec rxDMYSlash ?t = None"
      using z by (simp add: rxExec_None rxTest_DMYSlash)
    have e3: "rxExec rxDMYHyphen ?t = Some [?t, a, b, c]"
      unfolding t rxDMYHyphen_def using a b c by (rule rxExec_three_fields)
    have r: "normalizeMonth raw = Some (padStart 2 digit0 b @ [slash] @ c)"
      using ne b(1) by (simp add: normalizeMonth_def Let_def e1 e2 e3 padStart_def)
    have "monthField ?t = b" "yearField ?t = c"
      using x y a(1) b(1) by (simp_all add: monthField_def yearField_def t)
    then show ?thesis using b c r that by blast
  next
    case isoM
    then obtain c b a where t: "?t = c @ hyphen # b @ hyphen # a"
        and c: "length c = 4" "list_all isDigit c" and b: "length b = 2" "list_all isDigit b"
        and a: "length a = 2" "list_all isDigit a"
      using slots_ISO by (rule shape3_elim)
    have ne: "?t \<noteq> []" by (simp add: t)
    have x: "\<not> shapeMatches ''M/YYYY'' ?t" "\<not> shapeMatches ''MM/YYYY'' ?t"
      using shape_length [OF isoM] shape_length [of "''M/YYYY''" ?t] shape_length [of "''MM/YYYY''" ?t]
      by auto
    have z: "\<not> shapeMatches ''DD/MM/YYYY'' ?t" "\<not> shapeMatches ''DD-MM-YYYY'' ?t"
      using shape_index_2(3) [OF isoM] shape_index_2(1) [of ?t] shape_index_2(2) [of ?t]
      by (auto simp add: not_digit_sep)
    have e1: "rxExec rxMonthYear ?t = None"
      using x by (simp add: rxExec_None rxTest_MonthYear)
    have e2: "rxExec rxDMYSlash ?t = None" "rxExec rxDMYHyphen ?t = None"
      using z by (simp_all add: rxExec_None rxTest_DMYSlash rxTest_DMYHyphen)
    have e3: "rxExec rxISO ?t = Some [?t, c, b, a]"
      unfolding t rxISO_def using c b a by (rule rxExec_three_fields)
    have r: "normalizeMonth raw = Some (padStart 2 digit0 b @ [slash] @ c)"
      using ne b(1) by (simp add: normalizeMonth_def Let_def e1 e2 e3 padStart_def)
    have "monthField ?t = b" "yearField ?t = c"
      using x isoM c(1) b(1) by (simp_all add: monthField_def yearField_def t)
    then show ?thesis using b c r that by blast
  qed
qed

lemma normalizeMonth_eq:
  "normalizeMonth raw =
     (if list_ex (\<lambda>p. shapeMatches p (trim raw)) monthShapes
      then Some (padStart 2 digit0 (monthField (trim raw)) @ [slash] @ yearField (trim raw))
      else None)"
proof (cases "list_ex (\<lambda>p. shapeMatches p (trim raw)) monthShapes")
  case True
  then obtain mf yf where "monthField (trim raw) = mf" "yearField (trim raw) = yf"
      "normalizeMonth raw = Some (padStart 2 digit0 mf @ [slash] @ yf)"
    by (rule normalizeMonth_cases)
  with True show ?thesis by simp
next
  case False
  then show ?thesis by (simp add: normalizeMonth_None)
qed

lemma normalizeMonth_month:
  assumes "normalizeMonth raw = Some r"
  shows "shapeMatches ''MM/YYYY'' r"
    and "radixValue 10 (take 2 r) = radixValue 10 (monthField (trim raw))"
    and "drop 3 r = yearField (trim raw)"
    and "isMonthKey r \<longleftrightarrow>
           1 \<le> radixValue 10 (monthField (trim raw)) \<and> radixValue 10 (monthField (trim raw)) \<le> 12"
proof -
  from assms have "list_ex (\<lambda>p. shapeMatches p (trim raw)) monthShapes"
    using normalizeMonth_None [of raw] by auto
  then obtain mf yf where f: "monthField (trim raw) = mf" "yearField (trim raw) = yf"
      and mf: "length mf = 1 \<or> length mf = 2" "list_all isDigit mf"
      and yf: "length yf = 4" "list_all isDigit yf"
      and n: "normalizeMonth raw = Some (padStart 2 digit0 mf @ [slash] @ yf)"
    by (rule normalizeMonth_cases)
  let ?p = "padStart 2 digit0 mf"
  from n assms have r: "r = ?p @ [slash] @ yf" by simp
  have p: "length ?p = 2" "radixValue 10 ?p = radixValue 10 mf"
    using mf(1) by (simp_all add: padStart_month_value)
  have pd: "list_all isDigit ?p"
    using mf(2) by (auto simp add: padStart_def isDigit_def list_all_iff)
  from p(1) pd yf show s: "shapeMatches ''MM/YYYY'' r"
    unfolding r by (rule shape_MMYYYY_intro)
  have t2: "take 2 r = ?p" using p(1) by (simp add: r)
  then show v: "radixValue 10 (take 2 r) = radixValue 10 (monthField (trim raw))"
    by (simp add: p(2) f)
  show "drop 3 r = yearField (trim raw)"
    using p(1) by (simp add: r f)
  show "isMonthKey r \<longleftrightarrow>
      1 \<le> radixValue 10 (monthField (trim raw)) \<and> radixValue 10 (monthField (trim raw)) \<le> 12"
    using s v by (simp add: isMonthKey_def monthInRange_def)
qed

text \<open>
  Claim C2, as amended.  \<open>normalizeMonth\<close> returns \<open>null\<close> exactly for the inputs
  that, trimmed, match none of the five shapes \<open>M/YYYY\<close>, \<open>MM/YYYY\<close>,
  \<open>DD/MM/YYYY\<close>, \<open>DD-MM-YYYY\<close>, \<open>YYYY-MM-DD\<close>.  For every other input the
  result is the month field of the input, a single digit padded with a zero, a slash,
  and the year field of the input: of shape \<open>MM/YYYY\<close>, with the month and the year
  the input has, and no day.  So the result is a canonical month key, with a month from
  01 to 12, exactly when the month field of the input is from 1 to 12; the month is
  copied and not checked.
\<close>

theorem normalizeMonth_fields:
  "normalizeMonth raw =
     (if list_ex (\<lambda>p. shapeMatches p (trim raw)) monthShapes
      then Some (padStart 2 digit0 (monthField (trim raw)) @ [slash] @ yearField (trim raw))
      else None)
   \<and> (\<forall>r. normalizeMonth raw = Some r \<longrightarrow>
          shapeMatches ''MM/YYYY'' r
          \<and> radixValue 10 (take 2 r) = radixValue 10 (monthField (trim raw))
          \<and> drop 3 r = yearField (trim raw)
          \<and> (isMonthKey r \<longleftrightarrow>
                1 \<le> radixValue 10 (monthField (trim raw))
                \<and> radixValue 10 (monthField (trim raw)) \<le> 12))"
  using normalizeMonth_eq [of raw] normalizeMonth_month [of raw] by blast

text \<open>The definitions a concrete evaluation unfolds.\<close>

lemmas number_eval =
  StringToNumber_def trim_def js_def isStrWhiteSpaceChar_def nonDecimalIntegerLiteral_def
  strDecimalLiteral_def strUnsignedDecimalLiteral_def isDigit_def exponentPart_def
  signedInteger_def decimalDigits_def radixValue_def digitValue_def isRadixDigit_def toDouble_def
  numberToString_def padStart_def digitsOf.simps

lemmas rx_eval =
  rxExec_def rxTest_def rxMonthYear_def rxDMYSlash_def rxDMYHyphen_def rxISO_def upt_rec

text \<open>
  Claim C2 as stated fails: \<open>13/2024\<close> is returned as it is, and is no canonical month
  key.
\<close>

theorem normalizeMonth_month_13:
  "normalizeMonth (js ''13/2024'') = Some (js ''13/2024'') \<and> \<not> isMonthKey (js ''13/2024'')"
proof -
  have "normalizeMonth (js ''13/2024'') = Some (js ''13/2024'')"
    by (simp add: normalizeMonth_def rx_eval number_eval)
  moreover have "\<not> monthInRange (js ''13/2024'')"
    by (simp add: monthInRange_def radixValue_def digitValue_def js_def)
  ultimately show ?thesis by (simp add: isMonthKey_def)
qed

text \<open>One input of each shape.\<close>

lemma normalizeMonth_examples:
  "normalizeMonth (js ''3/2024'') = Some (js ''03/2024'')"
  "normalizeMonth (js ''11/2024'') = Some (js ''11/2024'')"
  "normalizeMonth (js ''15/04/2025'') = Some (js ''04/2025'')"
  "normalizeMonth (js ''15-04-2025'') = Some (js ''04/2025'')"
  "normalizeMonth (js ''2025-04-15'') = Some (js ''04/2025'')"
  "normalizeMonth (js ''April 2025'') = None"
  by (simp_all add: normalizeMonth_def rx_eval number_eval)

theorem normalizeMonth_fields_witness:
  "normalizeMonth (js '' 3/2024'') = Some (js ''03/2024'')
   \<and> shapeMatches ''MM/YYYY'' (js ''03/2024'')
   \<and> radixValue 10 (take 2 (js ''03/2024'')) = radixValue 10 (monthField (trim (js '' 3/2024'')))
   \<and> drop 3 (js ''03/2024'') = yearField (trim (js '' 3/2024''))
   \<and> isMonthKey (js ''03/2024'')"
proof -
  have e: "normalizeMonth (js '' 3/2024'') = Some (js ''03/2024'')"
    by (simp add: normalizeMonth_def rx_eval number_eval)
  have t: "trim (js '' 3/2024'') = js ''3/2024''"
    by (simp add: trim_def js_def isStrWhiteSpaceChar_def)
  have m: "monthField (js ''3/2024'') = js ''3''"
    by (simp add: monthField_def shapeMatches_def slotOK_def isShapeLetter_def js_def isDigit_def)
  have v: "1 \<le> radixValue 10 (monthField (trim (js '' 3/2024'')))
      \<and> radixValue 10 (monthField (trim (js '' 3/2024''))) \<le> 12"
    unfolding t m by (simp add: radixValue_def digitValue_def js_def)
  from e v normalizeMonth_fields [of "js '' 3/2024''"] show ?thesis by blast
qed


subsection \<open>Month keys: comparison, sorting and clamping\<close>

lemma splitOn_not_Nil: "splitOn sep s \<noteq> []"
  by (induction s) (auto split: list.splits elim: consFirst.elims)

lemma splitOn_no_sep: "sep \<notin> set s \<Longrightarrow> splitOn sep s = [s]"
  by (induction s) simp_all

lemma splitOn_first: "sep \<notin> set a \<Longrightarrow> splitOn sep (a @ sep # b) = a # splitOn sep b"
  by (induction a) simp_all

lemma digits_no_sep: "list_all isDigit s \<Longrightarrow> \<not> isDigit c \<Longrightarrow> c \<notin> set s"
  by (auto simp add: list_all_iff)

lemma shape_MMYYYY_elim:
  assumes "shapeMatches ''MM/YYYY'' k"
  obtains a b where "k = a @ slash # b" "length a = 2" "list_all isDigit a"
    "length b = 4" "list_all isDigit b"
proof -
  have "map slotOK ''MM/YYYY'' = replicate 2 isDigit @ ((\<lambda>x. x = slash) # replicate 4 isDigit)"
    by (simp add: slot_letters eval_nat_numeral)
  with assms have *: "list_all2 (\<lambda>P c. P c)
      (replicate 2 isDigit @ ((\<lambda>x. x = slash) # replicate 4 isDigit)) k"
    unfolding shape_slots by simp
  then have 1: "2 \<le> length k" "list_all isDigit (take 2 k)"
     and 2: "list_all2 (\<lambda>P c. P c) ((\<lambda>x. x = slash) # replicate 4 isDigit) (drop 2 k)"
    unfolding list_all2_digit_slots by simp_all
  from 2 obtain b where b: "drop 2 k = slash # b" "length b = 4" "list_all isDigit b"
    by (auto simp add: list_all2_Cons1 list_all2_digits_only)
  have "k = take 2 k @ drop 2 k" by simp
  with b(1) have "k = take 2 k @ slash # b" by simp
  moreover from 1 have "length (take 2 k) = 2" by simp
  ultimately show thesis using 1(2) b(2,3) by (rule that)
qed

lemma monthKeyParts_shape:
  assumes "shapeMatches ''MM/YYYY'' k"
  shows "monthKeyParts k = (VNum (Num (real (radixValue 10 (take 2 k)))),
                            VNum (Num (real (radixValue 10 (drop 3 k)))))"
proof -
  from assms obtain a b where k: "k = a @ slash # b" and a: "length a = 2" "list_all isDigit a"
      and b: "length b = 4" "list_all isDigit b"
    by (rule shape_MMYYYY_elim)
  have "slash \<notin> set a" "slash \<notin> set b"
    using a(2) b(2) by (auto simp add: list_all_iff isDigit_def)
  then have sp: "splitOn slash k = [a, b]"
    by (simp add: k splitOn_first splitOn_no_sep)
  have na: "StringToNumber a = Num (real (radixValue 10 a))"
    using a by (intro StringToNumber_digits) auto
  have nb: "StringToNumber b = Num (real (radixValue 10 b))"
    using b by (intro StringToNumber_digits) auto
  have "take 2 k = a" "drop 3 k = b"
    using a(1) by (simp_all add: k)
  then show ?thesis
    by (simp add: monthKeyParts_def sp elemAt_def na nb)
qed

lemma month_part_small:
  assumes "shapeMatches ''MM/YYYY'' k"
  shows "radixValue 10 (take 2 k) < 100"
proof -
  from assms obtain a b where k: "k = a @ slash # b" and a: "length a = 2" "list_all isDigit a"
    by (rule shape_MMYYYY_elim)
  have "take 2 k = a" using a(1) by (simp add: k)
  with radixValue_bound [OF a(2)] a(1) show ?thesis by simp
qed

lemma compareMonthKey_shape:
  assumes "shapeMatches ''MM/YYYY'' a" "shapeMatches ''MM/YYYY'' b"
  shows "compareMonthKey a b =
     Num (if radixValue 10 (drop 3 a) \<noteq> radixValue 10 (drop 3 b)
          then real (radixValue 10 (drop 3 a)) - real (radixValue 10 (drop 3 b))
          else real (radixValue 10 (take 2 a)) - real (radixValue 10 (take 2 b)))"
  by (simp add: compareMonthKey_def monthKeyParts_shape [OF assms(1)] monthKeyParts_shape [OF assms(2)])

lemma leZero_compare:
  assumes "shapeMatches ''MM/YYYY'' a" "shapeMatches ''MM/YYYY'' b"
  shows "leZero (compareMonthKey a b) \<longleftrightarrow> monthOrd a \<le> monthOrd b"
  using month_part_small [OF assms(1)] month_part_small [OF assms(2)]
  by (auto simp add: compareMonthKey_shape [OF assms] monthOrd_def)

lemma gtZero_compare:
  assumes "shapeMatches ''MM/YYYY'' a" "shapeMatches ''MM/YYYY'' b"
  shows "gtZero (compareMonthKey a b) \<longleftrightarrow> monthOrd b < monthOrd a"
  using month_part_small [OF assms(1)] month_part_small [OF assms(2)]
  by (auto simp add: compareMonthKey_shape [OF assms] monthOrd_def)


lemma insertBy_insort:
  assumes "shapeMatches ''MM/YYYY'' x" "list_all (shapeMatches ''MM/YYYY'') ys"
  shows "insertBy compareMonthKey x ys = insort_key monthOrd x ys"
  using assms(2)
proof (induction ys)
  case Nil
  show ?case by simp
next
  case (Cons y ys)
  then have y: "shapeMatches ''MM/YYYY'' y" and ys: "list_all (shapeMatches ''MM/YYYY'') ys"
    by simp_all
  from gtZero_compare [OF assms(1) y] Cons.IH [OF ys] show ?case
    by (simp add: not_le)
qed

lemma sortBy_sort_key:
  assumes "list_all (shapeMatches ''MM/YYYY'') xs"
  shows "sortBy compareMonthKey xs = sort_key monthOrd xs"
  using assms
proof (induction xs)
  case Nil
  show ?case by (simp add: sortBy_def)
next
  case (Cons x xs)
  then have x: "shapeMatches ''MM/YYYY'' x" and xs: "list_all (shapeMatches ''MM/YYYY'') xs"
    by simp_all
  have "list_all (shapeMatches ''MM/YYYY'') (sort_key monthOrd xs)"
    using xs by (simp add: list_all_iff)
  from insertBy_insort [OF x this] Cons.IH [OF xs] show ?case
    by (simp add: sortBy_def sort_key_def)
qed

lemma find_rev_Some:
  assumes "find P (rev xs) = Some r"
  shows "\<exists>ys zs. xs = ys @ r # zs \<and> P r \<and> (\<forall>z \<in> set zs. \<not> P z)"
  using assms
proof (induction xs rule: rev_induct)
  case Nil
  then show ?case by simp
next
  case (snoc x xs)
  show ?case
  proof (cases "P x")
    case True
    with snoc.prems have "r = x" by simp
    with True have "xs @ [x] = xs @ r # [] \<and> P r \<and> (\<forall>z \<in> set []. \<not> P z)" by simp
    then show ?thesis by blast
  next
    case False
    with snoc.prems have "find P (rev xs) = Some r" by simp
    from snoc.IH [OF this] obtain ys zs where "xs = ys @ r # zs" "P r" "\<forall>z \<in> set zs. \<not> P z"
      by blast
    with False have "xs @ [x] = ys @ r # (zs @ [x]) \<and> P r \<and> (\<forall>z \<in> set (zs @ [x]). \<not> P z)"
      by simp
    then show ?thesis by blast
  qed
qed

lemma clamp_not_member:
  assumes "options \<noteq> []" "target \<notin> set options"
  shows "clampMonthKeyToOptions target options =
     (case find (\<lambda>opt. leZero (compareMonthKey opt target)) (rev (sortBy compareMonthKey options)) of
        Some opt \<Rightarrow> opt | None \<Rightarrow> sortBy compareMonthKey options ! 0)"
  using assms by (simp add: clampMonthKeyToOptions_def Let_def)

lemma clamp_member: "target \<in> set options \<Longrightarrow> clampMonthKeyToOptions target options = target"
  by (auto simp add: clampMonthKeyToOptions_def)

lemma clamp_backward:
  assumes t: "shapeMatches ''MM/YYYY'' target"
      and os: "list_all (shapeMatches ''MM/YYYY'') options"
      and nm: "target \<notin> set options"
      and ex: "list_ex (\<lambda>opt. leZero (compareMonthKey opt target)) options"
  shows "clampMonthKeyToOptions target options \<in> set options
         \<and> leZero (compareMonthKey (clampMonthKeyToOptions target options) target)
         \<and> list_all (\<lambda>opt. leZero (compareMonthKey opt target)
               \<longrightarrow> leZero (compareMonthKey opt (clampMonthKeyToOptions target options))) options"
proof -
  let ?P = "\<lambda>opt. leZero (compareMonthKey opt target)"
  let ?s = "sort_key monthOrd options"
  from ex have ne: "options \<noteq> []" by auto
  have shaped: "shapeMatches ''MM/YYYY'' x" if "x \<in> set options" for x
    using os that by (simp add: list_all_iff)
  have P: "?P x \<longleftrightarrow> monthOrd x \<le> monthOrd target" if "x \<in> set options" for x
    using leZero_compare [OF shaped [OF that] t] .
  from ex obtain x where "x \<in> set (rev ?s)" "?P x"
    by (auto simp add: list_ex_iff)
  then obtain r where r: "find ?P (rev ?s) = Some r"
    by (cases "find ?P (rev ?s)") (auto simp add: find_None_iff)
  from find_rev_Some [OF r] obtain ys zs where
      s: "?s = ys @ r # zs" and Pr: "?P r" and zs: "\<forall>z \<in> set zs. \<not> ?P z"
    by blast
  have sets: "set options = set ys \<union> insert r (set zs)"
    using arg_cong [OF s, of set] by simp
  then have rin: "r \<in> set options" by simp
  have "sorted (map monthOrd ?s)" by (rule sorted_sort_key)
  then have before: "\<forall>y \<in> set ys. monthOrd y \<le> monthOrd r"
    unfolding s by (simp add: sorted_append)
  have res: "clampMonthKeyToOptions target options = r"
    using clamp_not_member [OF ne nm] r by (simp add: sortBy_sort_key [OF os])
  have "?P x \<longrightarrow> leZero (compareMonthKey x r)" if x: "x \<in> set options" for x
  proof
    assume px: "?P x"
    from x sets have "x \<in> set ys \<or> x = r \<or> x \<in> set zs" by auto
    with px zs before have "monthOrd x \<le> monthOrd r" by auto
    with leZero_compare [OF shaped [OF x] shaped [OF rin]] show "leZero (compareMonthKey x r)"
      by simp
  qed
  with rin Pr show ?thesis
    unfolding res by (simp add: list_all_iff)
qed

lemma clamp_earliest:
  assumes os: "list_all (shapeMatches ''MM/YYYY'') options"
      and ne: "options \<noteq> []"
      and nm: "target \<notin> set options"
      and nex: "\<not> list_ex (\<lambda>opt. leZero (compareMonthKey opt target)) options"
  shows "clampMonthKeyToOptions target options \<in> set options
         \<and> list_all (\<lambda>opt. leZero (compareMonthKey (clampMonthKeyToOptions target options) opt)) options"
proof -
  let ?P = "\<lambda>opt. leZero (compareMonthKey opt target)"
  let ?s = "sort_key monthOrd options"
  have shaped: "shapeMatches ''MM/YYYY'' x" if "x \<in> set options" for x
    using os that by (simp add: list_all_iff)
  from nex have "find ?P (rev ?s) = None"
    by (simp add: find_None_iff list_ex_iff)
  then have res: "clampMonthKeyToOptions target options = ?s ! 0"
    using clamp_not_member [OF ne nm] by (simp add: sortBy_sort_key [OF os])
  from ne have "?s \<noteq> []" by (metis set_empty set_sort)
  then obtain r rs where s: "?s = r # rs" by (cases ?s) auto
  have sets: "set options = insert r (set rs)"
    using arg_cong [OF s, of set] by simp
  then have rin: "r \<in> set options" by simp
  have "sorted (map monthOrd ?s)" by (rule sorted_sort_key)
  then have "\<forall>y \<in> set rs. monthOrd r \<le> monthOrd y"
    unfolding s by simp
  with sets have "monthOrd r \<le> monthOrd x" if "x \<in> set options" for x
    using that by auto
  then have "leZero (compareMonthKey r x)" if "x \<in> set options" for x
    using leZero_compare [OF shaped [OF rin] shaped [OF that]] that by simp
  with rin show ?thesis
    unfolding res s by (simp add: list_all_iff)
qed


lemmas month_eval =
  clampMonthKeyToOptions_def sortBy_def compareMonthKey_def monthKeyParts_def elemAt_def

lemma clamp_example_1:
  "clampMonthKeyToOptions (js ''06/2024'') [js ''01/2024'', js ''04/2024'', js ''09/2024'']
     = js ''04/2024''"
  by (simp add: month_eval number_eval)

lemma clamp_example_2:
  "clampMonthKeyToOptions (js ''12/2020'') [js ''01/2024''] = js ''01/2024''"
  by (simp add: month_eval number_eval)

text \<open>
  Claim C6.  \<open>clampMonthKeyToOptions\<close> returns the target when it is among the
  options.  Otherwise, for a target and options of shape \<open>MM/YYYY\<close>: when some option
  compares \<open><= 0\<close> with the target, the result is an option that does, and every option
  that does compares \<open><= 0\<close> with the result (the latest option not after the target);
  when no option does, the result is an option that compares \<open><= 0\<close> with every
  option (the earliest).  The two examples of the specification evaluate as stated.
\<close>

theorem clamp_snaps_backward:
  "(target \<in> set options \<longrightarrow> clampMonthKeyToOptions target options = target)
   \<and> (shapeMatches ''MM/YYYY'' target \<and> list_all (shapeMatches ''MM/YYYY'') options
        \<and> target \<notin> set options
        \<and> list_ex (\<lambda>opt. leZero (compareMonthKey opt target)) options
      \<longrightarrow> clampMonthKeyToOptions target options \<in> set options
          \<and> leZero (compareMonthKey (clampMonthKeyToOptions target options) target)
          \<and> list_all (\<lambda>opt. leZero (compareMonthKey opt target)
                \<longrightarrow> leZero (compareMonthKey opt (clampMonthKeyToOptions target options))) options)
   \<and> (list_all (shapeMatches ''MM/YYYY'') options \<and> options \<noteq> []
        \<and> target \<notin> set options
        \<and> \<not> list_ex (\<lambda>opt. leZero (compareMonthKey opt target)) options
      \<longrightarrow> clampMonthKeyToOptions target options \<in> set options
          \<and> list_all (\<lambda>opt. leZero (compareMonthKey (clampMonthKeyToOptions target options) opt)) options)
   \<and> clampMonthKeyToOptions (js ''06/2024'') [js ''01/2024'', js ''04/2024'', js ''09/2024'']
       = js ''04/2024''
   \<and> clampMonthKeyToOptions (js ''12/2020'') [js ''01/2024''] = js ''01/2024''"
  using clamp_member [of target options] clamp_backward [of target options]
    clamp_earliest [of options target] clamp_example_1 clamp_example_2
  by blast


lemmas shape_eval = shapeMatches_def slotOK_def isShapeLetter_def js_def isDigit_def

theorem clamp_snaps_backward_witness:
  "shapeMatches ''MM/YYYY'' (js ''06/2024'')
   \<and> list_all (shapeMatches ''MM/YYYY'') [js ''01/2024'', js ''04/2024'', js ''09/2024'']
   \<and> js ''06/2024'' \<notin> set [js ''01/2024'', js ''04/2024'', js ''09/2024'']
   \<and> list_ex (\<lambda>opt. leZero (compareMonthKey opt (js ''06/2024'')))
         [js ''01/2024'', js ''04/2024'', js ''09/2024'']
   \<and> leZero (compareMonthKey
         (clampMonthKeyToOptions (js ''06/2024'') [js ''01/2024'', js ''04/2024'', js ''09/2024''])
         (js ''06/2024''))
   \<and> list_all (shapeMatches ''MM/YYYY'') [js ''01/2024''] \<and> [js ''01/2024''] \<noteq> []
   \<and> js ''12/2020'' \<notin> set [js ''01/2024'']
   \<and> \<not> list_ex (\<lambda>opt. leZero (compareMonthKey opt (js ''12/2020''))) [js ''01/2024'']
   \<and> clampMonthKeyToOptions (js ''12/2020'') [js ''01/2024''] \<in> set [js ''01/2024'']"
proof -
  let ?t = "js ''06/2024''"
  let ?os = "[js ''01/2024'', js ''04/2024'', js ''09/2024'']"
  have a: "shapeMatches ''MM/YYYY'' ?t" "list_all (shapeMatches ''MM/YYYY'') ?os"
    by (simp_all add: shape_eval)
  have b: "?t \<notin> set ?os"
    by (simp add: js_def)
  have c: "list_ex (\<lambda>opt. leZero (compareMonthKey opt ?t)) ?os"
    by (simp add: month_eval number_eval)
  let ?t' = "js ''12/2020''"
  let ?os' = "[js ''01/2024'']"
  have a': "list_all (shapeMatches ''MM/YYYY'') ?os'" "?os' \<noteq> []"
    by (simp_all add: shape_eval)
  have b': "?t' \<notin> set ?os'"
    by (simp add: js_def)
  have c': "\<not> list_ex (\<lambda>opt. leZero (compareMonthKey opt ?t')) ?os'"
    by (simp add: month_eval number_eval)
  from a b c clamp_snaps_backward [of ?t ?os]
  have 1: "leZero (compareMonthKey (clampMonthKeyToOptions ?t ?os) ?t)"
    by blast
  from a' b' c' clamp_snaps_backward [of ?t' ?os']
  have 2: "clampMonthKeyToOptions ?t' ?os' \<in> set ?os'"
    by blast
  from a b c 1 a' b' c' 2 show ?thesis by blast
qed

subsection \<open>The calendar\<close>

text \<open>
  \<open>YearFromTime\<close> as computed above is the year the language definition asks for:
  the largest year whose first day is not after the time value.
\<close>

lemma div_bounds_pos: "k * (x div k) \<le> x \<and> x < k * (x div k) + k" if "0 < k" for k x :: int
proof -
  have "x = k * (x div k) + x mod k" by simp
  moreover have "0 \<le> x mod k" "x mod k < k" using that by simp_all
  ultimately show ?thesis by linarith
qed

lemma div_4: "4 * (x div 4) \<le> x \<and> x < 4 * (x div 4) + 4" for x :: int
  by (rule div_bounds_pos) simp

lemma div_100: "100 * (x div 100) \<le> x \<and> x < 100 * (x div 100) + 100" for x :: int
  by (rule div_bounds_pos) simp

lemma div_400: "400 * (x div 400) \<le> x \<and> x < 400 * (x div 400) + 400" for x :: int
  by (rule div_bounds_pos) simp

lemma div_146097: "146097 * (x div 146097) \<le> x \<and> x < 146097 * (x div 146097) + 146097" for x :: int
  by (rule div_bounds_pos) simp

lemma div_msPerDay: "msPerDay * (t div msPerDay) \<le> t \<and> t < msPerDay * (t div msPerDay) + msPerDay"
  by (rule div_bounds_pos) (simp add: msPerDay_def)

lemma DayFromYear_linear:
  obtains a b c where "DayFromYear y = 365 * y - 719050 + a - b + c"
    and "4 * a \<le> y - 1969" and "y - 1969 < 4 * a + 4"
    and "100 * b \<le> y - 1901" and "y - 1901 < 100 * b + 100"
    and "400 * c \<le> y - 1601" and "y - 1601 < 400 * c + 400"
proof -
  have "DayFromYear y =
          365 * y - 719050 + (y - 1969) div 4 - (y - 1901) div 100 + (y - 1601) div 400"
    by (simp add: DayFromYear_def algebra_simps)
  then show ?thesis
    using div_4 [of "y - 1969"] div_100 [of "y - 1901"] div_400 [of "y - 1601"] that
    by blast
qed

lemma DayFromYear_upper: "400 * DayFromYear y \<le> 146097 * y - 287810501"
proof -
  obtain a b c where "DayFromYear y = 365 * y - 719050 + a - b + c"
    and "4 * a \<le> y - 1969" and "y - 1969 < 4 * a + 4"
    and "100 * b \<le> y - 1901" and "y - 1901 < 100 * b + 100"
    and "400 * c \<le> y - 1601" and "y - 1601 < 400 * c + 400"
    by (rule DayFromYear_linear)
  then show ?thesis by linarith
qed

lemma DayFromYear_lower: "146097 * y - 287811596 \<le> 400 * DayFromYear y"
proof -
  obtain a b c where "DayFromYear y = 365 * y - 719050 + a - b + c"
    and "4 * a \<le> y - 1969" and "y - 1969 < 4 * a + 4"
    and "100 * b \<le> y - 1901" and "y - 1901 < 100 * b + 100"
    and "400 * c \<le> y - 1601" and "y - 1601 < 400 * c + 400"
    by (rule DayFromYear_linear)
  then show ?thesis by linarith
qed

lemma DayFromYear_strict_mono: "DayFromYear y < DayFromYear (y + 1)"
proof -
  obtain a b c where y: "DayFromYear y = 365 * y - 719050 + a - b + c"
    "4 * a \<le> y - 1969" "y - 1969 < 4 * a + 4"
    "100 * b \<le> y - 1901" "y - 1901 < 100 * b + 100"
    "400 * c \<le> y - 1601" "y - 1601 < 400 * c + 400"
    by (rule DayFromYear_linear)
  define z where "z = y + 1"
  obtain a' b' c' where z: "DayFromYear z = 365 * z - 719050 + a' - b' + c'"
    "4 * a' \<le> z - 1969" "z - 1969 < 4 * a' + 4"
    "100 * b' \<le> z - 1901" "z - 1901 < 100 * b' + 100"
    "400 * c' \<le> z - 1601" "z - 1601 < 400 * c' + 400"
    by (rule DayFromYear_linear)
  have "a \<le> a'" using y(2,3) z(2,3) z_def by linarith
  moreover have "b' \<le> b + 1" using y(4,5) z(4,5) z_def by linarith
  moreover have "c \<le> c'" using y(6,7) z(6,7) z_def by linarith
  ultimately have "DayFromYear y < DayFromYear z" using y(1) z(1) z_def by linarith
  then show ?thesis by (simp add: z_def)
qed

lemma DayFromYear_mono: "y \<le> z \<Longrightarrow> DayFromYear y \<le> DayFromYear z"
proof (induction "nat (z - y)" arbitrary: z)
  case 0
  then show ?case by simp
next
  case (Suc n)
  then have "n = nat ((z - 1) - y)" "y \<le> z - 1" by linarith+
  then have "DayFromYear y \<le> DayFromYear (z - 1)" by (rule Suc.hyps(1))
  with DayFromYear_strict_mono [of "z - 1"] show ?case by simp
qed

lemma year_of_day:
  fixes d :: int
  defines "y0 \<equiv> 1970 + (400 * d) div 146097"
  defines "y \<equiv> (if DayFromYear (y0 + 1) \<le> d then y0 + 1
                  else if DayFromYear y0 \<le> d then y0 else y0 - 1)"
  shows "DayFromYear y \<le> d \<and> d < DayFromYear (y + 1)"
proof -
  define q where "q = (400 * d) div 146097"
  have q: "146097 * q \<le> 400 * d" "400 * d < 146097 * q + 146097"
    using div_146097 [of "400 * d"] by (simp_all add: q_def)
  define l where "l = y0 - 1"
  define h where "h = y0 + 2"
  have l: "l = q + 1969" and h: "h = q + 1972"
    by (simp_all add: l_def h_def y0_def q_def)
  have lo: "DayFromYear l \<le> d"
    using DayFromYear_upper [of l] q l by linarith
  have hi: "d < DayFromYear h"
    using DayFromYear_lower [of h] q h by linarith
  have "y0 + 1 + 1 = h" "y0 - 1 + 1 = y0"
    by (simp_all add: h_def)
  then show ?thesis
    using lo hi unfolding y_def l_def
    by (simp add: not_le)
qed

lemma YearFromTime_bounds:
  "TimeFromYear (YearFromTime t) \<le> t \<and> t < TimeFromYear (YearFromTime t + 1)"
proof -
  let ?d = "Day t"
  have d: "msPerDay * ?d \<le> t" "t < msPerDay * ?d + msPerDay"
    using div_msPerDay [of t] by (simp_all add: Day_def)
  have y: "DayFromYear (YearFromTime t) \<le> ?d" "?d + 1 \<le> DayFromYear (YearFromTime t + 1)"
    using year_of_day [of ?d] by (simp_all add: YearFromTime_def Let_def)
  have "msPerDay * DayFromYear (YearFromTime t) \<le> msPerDay * ?d"
    using y(1) by (simp add: msPerDay_def)
  then have lo: "TimeFromYear (YearFromTime t) \<le> t"
    using d(1) unfolding TimeFromYear_def by (rule order_trans)
  have "msPerDay * (?d + 1) \<le> msPerDay * DayFromYear (YearFromTime t + 1)"
    using y(2) by (simp add: msPerDay_def)
  moreover have "msPerDay * (?d + 1) = msPerDay * ?d + msPerDay"
    by (simp add: algebra_simps)
  ultimately have "t < msPerDay * DayFromYear (YearFromTime t + 1)"
    using d(2) by linarith
  then have hi: "t < TimeFromYear (YearFromTime t + 1)"
    by (simp add: TimeFromYear_def)
  show ?thesis using lo hi by (rule conjI)
qed

lemma YearFromTime_largest: "TimeFromYear y \<le> t \<longleftrightarrow> y \<le> YearFromTime t"
proof
  assume a: "TimeFromYear y \<le> t"
  show "y \<le> YearFromTime t"
  proof (rule ccontr)
    assume "\<not> y \<le> YearFromTime t"
    then have "YearFromTime t + 1 \<le> y" by simp
    then have "DayFromYear (YearFromTime t + 1) \<le> DayFromYear y" by (rule DayFromYear_mono)
    then have "TimeFromYear (YearFromTime t + 1) \<le> TimeFromYear y"
      by (simp add: TimeFromYear_def msPerDay_def)
    with a YearFromTime_bounds [of t] show False by linarith
  qed
next
  assume "y \<le> YearFromTime t"
  then have "DayFromYear y \<le> DayFromYear (YearFromTime t)" by (rule DayFromYear_mono)
  then have "TimeFromYear y \<le> TimeFromYear (YearFromTime t)"
    by (simp add: TimeFromYear_def msPerDay_def)
  with YearFromTime_bounds [of t] show "TimeFromYear y \<le> t" by linarith
qed

subsection \<open>Reading the daily CSV: the loop\<close>

lemma map_filter_Nil: "List.map_filter f [] = []"
  by (simp add: List.map_filter_def)

lemma map_filter_Cons:
  "List.map_filter f (x # xs) =
     (case f x of None \<Rightarrow> List.map_filter f xs | Some y \<Rightarrow> y # List.map_filter f xs)"
  by (simp add: List.map_filter_def split: option.splits)

lemma parseRows_step:
  "parseRows eng i (row # rows) parsed errors =
     parseRows eng (Suc i) rows
       (parsed @ (case rowRecord eng row of None \<Rightarrow> [] | Some r \<Rightarrow> [r]))
       (errors @ (case rowError eng i row of None \<Rightarrow> [] | Some e \<Rightarrow> [e]))"
  by (simp add: rowRecord_def rowError_def validDate_def rowValue_def Let_def
        split: option.splits jsnum.splits)

lemma parseRows_eq:
  "parseRows eng i rows parsed errors =
     (parsed @ List.map_filter (rowRecord eng) rows,
      errors @ List.map_filter (\<lambda>p. rowError eng (fst p) (snd p)) (numbered i rows))"
proof (induction rows arbitrary: i parsed errors)
  case Nil
  show ?case by (simp add: map_filter_Nil)
next
  case (Cons row rows)
  show ?case
    unfolding parseRows_step Cons.IH numbered.simps map_filter_Cons
    by (simp split: option.splits)
qed

lemma record_or_error: "(rowRecord eng row = None) = (rowError eng i row \<noteq> None)"
  by (simp add: rowRecord_def rowError_def split: option.splits jsnum.splits)

lemma parseRows_count:
  "length (fst (parseRows eng i rows parsed errors)) + length (snd (parseRows eng i rows parsed errors))
     = length parsed + length errors + length rows"
proof (induction rows arbitrary: i parsed errors)
  case Nil
  show ?case by simp
next
  case (Cons row rows)
  have "(rowRecord eng row = None) = (rowError eng i row \<noteq> None)"
    by (rule record_or_error)
  then show ?case
    unfolding parseRows_step Cons.IH
    by (auto split: option.splits)
qed

lemma parseDMY_not_empty: "parseDMY sep t = Some d \<Longrightarrow> d \<noteq> []"
  by (auto simp add: parseDMY_def Let_def split: option.splits if_splits)

lemma parseISOKey_not_empty: "parseISOKey eng s = Some d \<Longrightarrow> d \<noteq> []"
  by (auto simp add: parseISOKey_def rx_eval split: option.splits if_splits)

lemma parseInputDate_not_empty: "parseInputDate eng s = Some d \<Longrightarrow> d \<noteq> []"
  by (auto simp add: parseInputDate_def Let_def split: if_splits
        dest: parseDMY_not_empty parseISOKey_not_empty)

lemma validDate_parseInputDate: "validDate eng row = parseInputDate eng (row ! 0)"
  using parseInputDate_not_empty [of eng "row ! 0"]
  by (simp add: validDate_def split: option.splits)

lemma rowRecord_alt:
  "rowRecord eng row =
     (case parseInputDate eng (row ! 0) of
        None \<Rightarrow> None
      | Some d \<Rightarrow> (case rowValue row of Num x \<Rightarrow> Some (d, x) | _ \<Rightarrow> None))"
  by (simp add: rowRecord_def validDate_parseInputDate)

lemma rowError_alt:
  "rowError eng i row =
     (if parseInputDate eng (row ! 0) = None then Some (dateErrorMsg i (row ! 0))
      else if isFiniteNum (rowValue row) then None
      else Some (valueErrorMsg i (row ! 1)))"
  by (simp add: rowError_def validDate_parseInputDate isFiniteNum_def
        split: option.splits jsnum.splits)

lemma csvParseDaily_rows:
  "csvParseDaily eng text =
     (List.map_filter (rowRecord eng) (dropHeader (csvRows text)),
      List.map_filter (\<lambda>p. rowError eng (fst p) (snd p)) (numbered 0 (dropHeader (csvRows text))))"
  by (simp add: csvParseDaily_def parseRows_eq)

lemma csvParseDaily_count:
  "length (fst (csvParseDaily eng text)) + length (snd (csvParseDaily eng text))
     = length (dropHeader (csvRows text))"
  using parseRows_count [of eng 0 "dropHeader (csvRows text)" "[]" "[]"]
  by (simp add: csvParseDaily_def)

subsection \<open>Reading the daily CSV: lines and cells\<close>

lemma consFirst_append: "xs \<noteq> [] \<Longrightarrow> consFirst c (xs @ ys) = consFirst c xs @ ys"
  by (cases xs) simp_all

lemma splitOn_append: "splitOn sep (a @ sep # b) = splitOn sep a @ splitOn sep b"
  by (induction a) (simp_all add: consFirst_append splitOn_not_Nil)

lemma splitOn_hd_Nil: "splitOn sep (d # cs) = p # ps \<Longrightarrow> p = [] \<longleftrightarrow> d = sep"
  by (cases "splitOn sep cs") (auto split: if_splits)

lemma dropCR_Cons: "p \<noteq> [] \<Longrightarrow> dropCR (c # p) = c # dropCR p"
  by (simp add: dropCR_def)

lemma splitLines_alt:
  "splitLines s = map dropCR (butlast (splitOn LF s)) @ [last (splitOn LF s)]"
proof (induction s rule: splitLines.induct)
  case 1
  show ?case by simp
next
  case (2 c)
  show ?case by (simp add: dropCR_def)
next
  case (3 c d cs)
  obtain p ps where X: "splitOn LF (d # cs) = p # ps"
    using splitOn_not_Nil [of LF "d # cs"] by (cases "splitOn LF (d # cs)") auto
  show ?case
  proof (cases "c = LF")
    case True
    with 3 X show ?thesis by (simp add: dropCR_def)
  next
    case nlf: False
    show ?thesis
    proof (cases "c = CR \<and> d = LF")
      case True
      then have "splitOn LF (c # d # cs) = [CR] # splitOn LF cs" by simp
      moreover have "splitLines (c # d # cs) = [] # splitLines cs" using True by simp
      ultimately show ?thesis
        using 3(2) True nlf splitOn_not_Nil [of LF cs] by (simp add: dropCR_def)
    next
      case False
      with nlf have sl: "splitLines (c # d # cs) = consFirst c (splitLines (d # cs))" by auto
      from nlf X have so: "splitOn LF (c # d # cs) = (c # p) # ps" by simp
      from 3(3) [OF nlf False] X
      have ih: "splitLines (d # cs) = map dropCR (butlast (p # ps)) @ [last (p # ps)]" by simp
      show ?thesis
      proof (cases ps)
        case Nil
        with sl so ih show ?thesis by simp
      next
        case (Cons q qs)
        from splitOn_hd_Nil [OF X] False have "p \<noteq> [] \<or> c \<noteq> CR" by auto
        then have "dropCR (c # p) = c # dropCR p"
          by (auto simp add: dropCR_def)
        with sl so ih Cons show ?thesis by simp
      qed
    qed
  qed
qed

lemma dropWhile_all: "list_all P xs \<Longrightarrow> dropWhile P xs = []"
  by (induction xs) simp_all

lemma trim_snoc_space:
  assumes "isStrWhiteSpaceChar w"
  shows "trim (xs @ [w]) = trim xs"
proof (cases "list_all isStrWhiteSpaceChar xs")
  case True
  then have "list_all isStrWhiteSpaceChar (xs @ [w])"
    using assms by simp
  then have a: "dropWhile isStrWhiteSpaceChar (xs @ [w]) = []"
    by (rule dropWhile_all)
  have b: "dropWhile isStrWhiteSpaceChar xs = []"
    using True by (rule dropWhile_all)
  show ?thesis unfolding trim_def a b by simp
next
  case False
  then obtain x where "x \<in> set xs" "\<not> isStrWhiteSpaceChar x"
    by (auto simp add: list_all_iff)
  then have "dropWhile isStrWhiteSpaceChar (xs @ [w]) = dropWhile isStrWhiteSpaceChar xs @ [w]"
    by (rule dropWhile_append1)
  then show ?thesis using assms by (simp add: trim_def)
qed

lemma trim_dropCR: "trim (dropCR s) = trim s"
proof (cases "s \<noteq> [] \<and> last s = CR")
  case True
  then have "s = butlast s @ [CR]" by (metis append_butlast_last_id)
  moreover have "isStrWhiteSpaceChar CR" by (simp add: isStrWhiteSpaceChar_def)
  ultimately have "trim s = trim (butlast s)" by (metis trim_snoc_space)
  with True show ?thesis by (simp add: dropCR_def)
next
  case False
  then show ?thesis by (auto simp add: dropCR_def)
qed

lemma trimmed_lines: "map trim (splitLines s) = map (\<lambda>x. trim (dropCR x)) (splitOn LF s)"
proof -
  let ?A = "splitOn LF s"
  have ne: "?A \<noteq> []" by (rule splitOn_not_Nil)
  have "map trim (splitLines s) = map (\<lambda>x. trim (dropCR x)) (butlast ?A) @ [trim (dropCR (last ?A))]"
    by (simp add: splitLines_alt trim_dropCR)
  also have "\<dots> = map (\<lambda>x. trim (dropCR x)) (butlast ?A @ [last ?A])"
    by simp
  also have "butlast ?A @ [last ?A] = ?A"
    using ne by simp
  finally show ?thesis .
qed

lemma csvLines_append: "csvLines (a @ LF # b) = csvLines a @ csvLines b"
  by (simp add: csvLines_def trimmed_lines splitOn_append)

lemma csvRows_append: "csvRows (a @ LF # b) = csvRows a @ csvRows b"
  by (simp add: csvRows_def csvLines_append)

lemma set_trim: "set (trim s) \<subseteq> set s"
proof -
  have "set (dropWhile P xs) \<subseteq> set xs" for P and xs :: jsstring
    by (metis set_dropWhileD subsetI)
  then have "set (dropWhile isStrWhiteSpaceChar (rev (dropWhile isStrWhiteSpaceChar s))) \<subseteq> set s"
    by (metis set_rev subset_trans)
  then show ?thesis by (simp add: trim_def)
qed

lemma csvRows_short_line:
  assumes "LF \<notin> set l" "comma \<notin> set l"
  shows "csvRows l = []"
proof -
  have "splitOn LF l = [l]" using assms(1) by (rule splitOn_no_sep)
  then have lines: "csvLines l = filter (\<lambda>x. x \<noteq> []) [trim l]"
    by (simp add: csvLines_def trimmed_lines trim_dropCR)
  have "comma \<notin> set (trim l)" using assms(2) set_trim [of l] by auto
  then have "csvCells (trim l) = [trim (trim l)]"
    by (simp add: csvCells_def splitOn_no_sep)
  then show ?thesis
    by (simp add: csvRows_def lines)
qed

lemma skip_line_middle:
  assumes "LF \<notin> set l" "comma \<notin> set l"
  shows "csvParseDaily eng (a @ [LF] @ l @ [LF] @ b) = csvParseDaily eng (a @ [LF] @ b)"
  using csvRows_short_line [OF assms]
  by (simp add: csvParseDaily_def csvRows_append)

lemma skip_line_first:
  assumes "LF \<notin> set l" "comma \<notin> set l"
  shows "csvParseDaily eng (l @ [LF] @ b) = csvParseDaily eng b"
  using csvRows_short_line [OF assms]
  by (simp add: csvParseDaily_def csvRows_append)

lemma skip_line_last:
  assumes "LF \<notin> set l" "comma \<notin> set l"
  shows "csvParseDaily eng (a @ [LF] @ l) = csvParseDaily eng a"
  using csvRows_short_line [OF assms]
  by (simp add: csvParseDaily_def csvRows_append)

lemma splitOn_length: "sep \<in> set s \<Longrightarrow> 2 \<le> length (splitOn sep s)"
proof (induction s)
  case Nil
  then show ?case by simp
next
  case (Cons c cs)
  show ?case
  proof (cases "c = sep")
    case True
    then show ?thesis using splitOn_not_Nil [of sep cs] by (cases "splitOn sep cs") simp_all
  next
    case False
    then have "2 \<le> length (splitOn sep cs)" using Cons by simp
    then show ?thesis using False by (cases "splitOn sep cs") simp_all
  qed
qed

lemma one_cell_no_comma: "length (splitOn comma l) < 2 \<Longrightarrow> comma \<notin> set l"
  using splitOn_length [of comma l] by auto

subsection \<open>The dates of the examples\<close>

text \<open>
  The dates used below, taken step by step through the operations of the calendar.  In
  the names, \<open>feb31\<close> is 31 February 2024, \<open>dec18\<close> 18 December 2025, \<open>m13\<close> day 20
  of month 13 of 2025, \<open>y50\<close> 1 January of the year 50, \<open>y999\<close> and \<open>y1000\<close> 15 June
  of the years 999 and 1000; \<open>iso\<close> marks the input written \<open>YYYY-MM-DD\<close>.
\<close>

lemma parts_feb31_hyphen: "map StringToNumber (splitOn hyphen (js ''31-02-2024'')) = [Num 31, Num 2, Num 2024]"
  by (simp add: number_eval)

lemma makeday_feb31: "MakeDay 2024 1 31 = 19784"
  by (simp add: MakeDay_def Let_def DayFromYear_def DaysInYear_def monthStart_def)

lemma utc_feb31: "DateUTC (Num 2024) (Num 1) (Num 31) = Some 1709337600000"
  by (simp add: DateUTC_def Let_def ToIntegerOrInfinity_def TimeClip_def MakeDate_def makeday_feb31
        msPerDay_def)

lemma day_feb31: "Day 1709337600000 = 19784"
  by (simp add: Day_def msPerDay_def)

lemma year_feb31: "YearFromTime 1709337600000 = 2024"
  by (simp add: YearFromTime_def Let_def day_feb31 DayFromYear_def)

lemma dwy_feb31: "DayWithinYear 1709337600000 = 61"
  by (simp add: DayWithinYear_def day_feb31 year_feb31 DayFromYear_def)

lemma leap_feb31: "InLeapYear 1709337600000 = 1"
  by (simp add: InLeapYear_def year_feb31 DaysInYear_def)

lemma month_feb31: "MonthFromTime 1709337600000 = 2"
  by (simp add: MonthFromTime_def Let_def dwy_feb31 leap_feb31)

lemma date_feb31: "DateFromTime 1709337600000 = 2"
  by (simp add: DateFromTime_def dwy_feb31 leap_feb31 month_feb31 monthStart_def)

lemma parseDMY_feb31_hyphen: "parseDMY hyphen (js ''31-02-2024'') = None"
  by (simp add: parseDMY_def Let_def parts_feb31_hyphen utc_feb31 getUTCFullYear_def getUTCMonth_def getUTCDate_def
        year_feb31 month_feb31 date_feb31)

lemma trim_feb31_hyphen: "trim (js ''31-02-2024'') = js ''31-02-2024''"
  by (simp add: trim_def js_def isStrWhiteSpaceChar_def)

lemma shape_feb31_hyphen: "\<not> rxTest rxDMYSlash (js ''31-02-2024'')" "rxTest rxDMYHyphen (js ''31-02-2024'')"
  by (simp_all add: rx_eval js_def isDigit_def)

lemma parseInputDate_feb31_hyphen: "parseInputDate eng (js ''31-02-2024'') = None"
  by (simp add: parseInputDate_def trim_feb31_hyphen shape_feb31_hyphen parseDMY_feb31_hyphen)

lemma parts_feb31_slash: "map StringToNumber (splitOn slash (js ''31/02/2024'')) = [Num 31, Num 2, Num 2024]"
  by (simp add: number_eval)

lemma parseDMY_feb31_slash: "parseDMY slash (js ''31/02/2024'') = None"
  by (simp add: parseDMY_def Let_def parts_feb31_slash utc_feb31 getUTCFullYear_def getUTCMonth_def getUTCDate_def
        year_feb31 month_feb31 date_feb31)

lemma trim_feb31_slash: "trim (js ''31/02/2024'') = js ''31/02/2024''"
  by (simp add: trim_def js_def isStrWhiteSpaceChar_def)

lemma shape_feb31_slash: "rxTest rxDMYSlash (js ''31/02/2024'')"
  by (simp add: rx_eval js_def isDigit_def)

lemma parseInputDate_feb31_slash: "parseInputDate eng (js ''31/02/2024'') = None"
  by (simp add: parseInputDate_def trim_feb31_slash shape_feb31_slash parseDMY_feb31_slash)

lemma parts_dec18: "map StringToNumber (splitOn slash (js ''18/12/2025'')) = [Num 18, Num 12, Num 2025]"
  by (simp add: number_eval)

lemma makeday_dec18: "MakeDay 2025 11 18 = 20440"
  by (simp add: MakeDay_def Let_def DayFromYear_def DaysInYear_def monthStart_def)

lemma utc_dec18: "DateUTC (Num 2025) (Num 11) (Num 18) = Some 1766016000000"
  by (simp add: DateUTC_def Let_def ToIntegerOrInfinity_def TimeClip_def MakeDate_def makeday_dec18
        msPerDay_def)

lemma day_dec18: "Day 1766016000000 = 20440"
  by (simp add: Day_def msPerDay_def)

lemma year_dec18: "YearFromTime 1766016000000 = 2025"
  by (simp add: YearFromTime_def Let_def day_dec18 DayFromYear_def)

lemma dwy_dec18: "DayWithinYear 1766016000000 = 351"
  by (simp add: DayWithinYear_def day_dec18 year_dec18 DayFromYear_def)

lemma leap_dec18: "InLeapYear 1766016000000 = 0"
  by (simp add: InLeapYear_def year_dec18 DaysInYear_def)

lemma month_dec18: "MonthFromTime 1766016000000 = 11"
  by (simp add: MonthFromTime_def Let_def dwy_dec18 leap_dec18)

lemma date_dec18: "DateFromTime 1766016000000 = 18"
  by (simp add: DateFromTime_def dwy_dec18 leap_dec18 month_dec18 monthStart_def)

lemma parseDMY_dec18: "parseDMY slash (js ''18/12/2025'') = Some (js ''2025-12-18'')"
  by (simp add: parseDMY_def Let_def parts_dec18 utc_dec18 getUTCFullYear_def getUTCMonth_def getUTCDate_def
        year_dec18 month_dec18 date_dec18)
     (simp add: numberToString_def padStart_def digitsOf.simps js_def)

lemma trim_dec18: "trim (js ''18/12/2025'') = js ''18/12/2025''"
  by (simp add: trim_def js_def isStrWhiteSpaceChar_def)

lemma shape_dec18: "rxTest rxDMYSlash (js ''18/12/2025'')"
  by (simp add: rx_eval js_def isDigit_def)

lemma parseInputDate_dec18: "parseInputDate eng (js ''18/12/2025'') = Some (js ''2025-12-18'')"
  by (simp add: parseInputDate_def trim_dec18 shape_dec18 parseDMY_dec18)

lemma parts_m13: "map StringToNumber (splitOn slash (js ''20/13/2025'')) = [Num 20, Num 13, Num 2025]"
  by (simp add: number_eval)

lemma makeday_m13: "MakeDay 2025 12 20 = 20473"
  by (simp add: MakeDay_def Let_def DayFromYear_def DaysInYear_def monthStart_def)

lemma utc_m13: "DateUTC (Num 2025) (Num 12) (Num 20) = Some 1768867200000"
  by (simp add: DateUTC_def Let_def ToIntegerOrInfinity_def TimeClip_def MakeDate_def makeday_m13
        msPerDay_def)

lemma day_m13: "Day 1768867200000 = 20473"
  by (simp add: Day_def msPerDay_def)

lemma year_m13: "YearFromTime 1768867200000 = 2026"
  by (simp add: YearFromTime_def Let_def day_m13 DayFromYear_def)

lemma dwy_m13: "DayWithinYear 1768867200000 = 19"
  by (simp add: DayWithinYear_def day_m13 year_m13 DayFromYear_def)

lemma leap_m13: "InLeapYear 1768867200000 = 0"
  by (simp add: InLeapYear_def year_m13 DaysInYear_def)

lemma month_m13: "MonthFromTime 1768867200000 = 0"
  by (simp add: MonthFromTime_def Let_def dwy_m13 leap_m13)

lemma date_m13: "DateFromTime 1768867200000 = 20"
  by (simp add: DateFromTime_def dwy_m13 leap_m13 month_m13 monthStart_def)

lemma parseDMY_m13: "parseDMY slash (js ''20/13/2025'') = None"
  by (simp add: parseDMY_def Let_def parts_m13 utc_m13 getUTCFullYear_def getUTCMonth_def getUTCDate_def
        year_m13 month_m13 date_m13)

lemma trim_m13: "trim (js ''20/13/2025'') = js ''20/13/2025''"
  by (simp add: trim_def js_def isStrWhiteSpaceChar_def)

lemma shape_m13: "rxTest rxDMYSlash (js ''20/13/2025'')"
  by (simp add: rx_eval js_def isDigit_def)

lemma parseInputDate_m13: "parseInputDate eng (js ''20/13/2025'') = None"
  by (simp add: parseInputDate_def trim_m13 shape_m13 parseDMY_m13)

lemma parts_y50: "map StringToNumber (splitOn slash (js ''01/01/0050'')) = [Num 1, Num 1, Num 50]"
  by (simp add: number_eval)

lemma makeday_y50: "MakeDay 1950 0 1 = (- 7305)"
  by (simp add: MakeDay_def Let_def DayFromYear_def DaysInYear_def monthStart_def)

lemma utc_y50: "DateUTC (Num 50) (Num 0) (Num 1) = Some (- 631152000000)"
  by (simp add: DateUTC_def Let_def ToIntegerOrInfinity_def TimeClip_def MakeDate_def makeday_y50
        msPerDay_def)

lemma day_y50: "Day (- 631152000000) = (- 7305)"
  by (simp add: Day_def msPerDay_def)

lemma year_y50: "YearFromTime (- 631152000000) = 1950"
  by (simp add: YearFromTime_def Let_def day_y50 DayFromYear_def)

lemma dwy_y50: "DayWithinYear (- 631152000000) = 0"
  by (simp add: DayWithinYear_def day_y50 year_y50 DayFromYear_def)

lemma leap_y50: "InLeapYear (- 631152000000) = 0"
  by (simp add: InLeapYear_def year_y50 DaysInYear_def)

lemma month_y50: "MonthFromTime (- 631152000000) = 0"
  by (simp add: MonthFromTime_def Let_def dwy_y50 leap_y50)

lemma date_y50: "DateFromTime (- 631152000000) = 1"
  by (simp add: DateFromTime_def dwy_y50 leap_y50 month_y50 monthStart_def)

lemma parseDMY_y50: "parseDMY slash (js ''01/01/0050'') = None"
  by (simp add: parseDMY_def Let_def parts_y50 utc_y50 getUTCFullYear_def getUTCMonth_def getUTCDate_def
        year_y50 month_y50 date_y50)

lemma trim_y50: "trim (js ''01/01/0050'') = js ''01/01/0050''"
  by (simp add: trim_def js_def isStrWhiteSpaceChar_def)

lemma shape_y50: "rxTest rxDMYSlash (js ''01/01/0050'')"
  by (simp add: rx_eval js_def isDigit_def)

lemma parseInputDate_y50: "parseInputDate eng (js ''01/01/0050'') = None"
  by (simp add: parseInputDate_def trim_y50 shape_y50 parseDMY_y50)

lemma parts_y999: "map StringToNumber (splitOn slash (js ''15/06/0999'')) = [Num 15, Num 6, Num 999]"
  by (simp add: number_eval)

lemma makeday_y999: "MakeDay 999 5 15 = (- 354485)"
  by (simp add: MakeDay_def Let_def DayFromYear_def DaysInYear_def monthStart_def)

lemma utc_y999: "DateUTC (Num 999) (Num 5) (Num 15) = Some (- 30627504000000)"
  by (simp add: DateUTC_def Let_def ToIntegerOrInfinity_def TimeClip_def MakeDate_def makeday_y999
        msPerDay_def)

lemma day_y999: "Day (- 30627504000000) = (- 354485)"
  by (simp add: Day_def msPerDay_def)

lemma year_y999: "YearFromTime (- 30627504000000) = 999"
  by (simp add: YearFromTime_def Let_def day_y999 DayFromYear_def)

lemma dwy_y999: "DayWithinYear (- 30627504000000) = 165"
  by (simp add: DayWithinYear_def day_y999 year_y999 DayFromYear_def)

lemma leap_y999: "InLeapYear (- 30627504000000) = 0"
  by (simp add: InLeapYear_def year_y999 DaysInYear_def)

lemma month_y999: "MonthFromTime (- 30627504000000) = 5"
  by (simp add: MonthFromTime_def Let_def dwy_y999 leap_y999)

lemma date_y999: "DateFromTime (- 30627504000000) = 15"
  by (simp add: DateFromTime_def dwy_y999 leap_y999 month_y999 monthStart_def)

lemma parseDMY_y999: "parseDMY slash (js ''15/06/0999'') = Some (js ''999-06-15'')"
  by (simp add: parseDMY_def Let_def parts_y999 utc_y999 getUTCFullYear_def getUTCMonth_def getUTCDate_def
        year_y999 month_y999 date_y999)
     (simp add: numberToString_def padStart_def digitsOf.simps js_def)

lemma trim_y999: "trim (js ''15/06/0999'') = js ''15/06/0999''"
  by (simp add: trim_def js_def isStrWhiteSpaceChar_def)

lemma shape_y999: "rxTest rxDMYSlash (js ''15/06/0999'')"
  by (simp add: rx_eval js_def isDigit_def)

lemma parseInputDate_y999: "parseInputDate eng (js ''15/06/0999'') = Some (js ''999-06-15'')"
  by (simp add: parseInputDate_def trim_y999 shape_y999 parseDMY_y999)

lemma trim_iso_feb31: "trim (js ''2024-02-31'') = js ''2024-02-31''"
  by (simp add: trim_def js_def isStrWhiteSpaceChar_def)

lemma shape_iso_feb31:
  "\<not> rxTest rxDMYSlash (js ''2024-02-31'')" "\<not> rxTest rxDMYHyphen (js ''2024-02-31'')"
  "rxTest rxISO (js ''2024-02-31'')"
  by (simp_all add: rx_eval js_def isDigit_def)

lemma newDate_iso_feb31:
  "newDateISO RollsOver (js ''2024-02-31'') = Some 1709337600000"
  "newDateISO Rejects (js ''2024-02-31'') = None"
  by (simp_all add: newDateISO_def rx_eval js_def isDigit_def radixValue_def digitValue_def Let_def
        daysInMonth_def DaysInYear_def TimeClip_def MakeDate_def makeday_feb31 msPerDay_def)

lemma parseInputDate_iso_feb31:
  "parseInputDate RollsOver (js ''2024-02-31'') = Some (js ''2024-02-31'')"
  "parseInputDate Rejects (js ''2024-02-31'') = None"
  by (simp_all add: parseInputDate_def trim_iso_feb31 shape_iso_feb31 parseISOKey_def newDate_iso_feb31)

lemma makeday_iso_y50: "MakeDay 50 0 1 = - 701265"
  by (simp add: MakeDay_def Let_def DayFromYear_def DaysInYear_def monthStart_def)

lemma trim_iso_y50: "trim (js ''0050-01-01'') = js ''0050-01-01''"
  by (simp add: trim_def js_def isStrWhiteSpaceChar_def)

lemma shape_iso_y50:
  "\<not> rxTest rxDMYSlash (js ''0050-01-01'')" "\<not> rxTest rxDMYHyphen (js ''0050-01-01'')"
  "rxTest rxISO (js ''0050-01-01'')"
  by (simp_all add: rx_eval js_def isDigit_def)

lemma newDate_iso_y50: "newDateISO eng (js ''0050-01-01'') = Some (- 60589296000000)"
  by (simp add: newDateISO_def rx_eval js_def isDigit_def radixValue_def digitValue_def Let_def
        daysInMonth_def DaysInYear_def TimeClip_def MakeDate_def makeday_iso_y50 msPerDay_def)

lemma parseInputDate_iso_y50: "parseInputDate eng (js ''0050-01-01'') = Some (js ''0050-01-01'')"
  by (simp add: parseInputDate_def trim_iso_y50 shape_iso_y50 parseISOKey_def newDate_iso_y50)

lemma makeday_iso_y999: "MakeDay 999 5 15 = (- 354485)"
  by (simp add: MakeDay_def Let_def DayFromYear_def DaysInYear_def monthStart_def)

lemma trim_iso_y999: "trim (js ''0999-06-15'') = js ''0999-06-15''"
  by (simp add: trim_def js_def isStrWhiteSpaceChar_def)

lemma shape_iso_y999:
  "\<not> rxTest rxDMYSlash (js ''0999-06-15'')" "\<not> rxTest rxDMYHyphen (js ''0999-06-15'')"
  "rxTest rxISO (js ''0999-06-15'')"
  by (simp_all add: rx_eval js_def isDigit_def)

lemma newDate_iso_y999: "newDateISO eng (js ''0999-06-15'') = Some (- 30627504000000)"
  by (simp add: newDateISO_def rx_eval js_def isDigit_def radixValue_def digitValue_def Let_def
        daysInMonth_def DaysInYear_def TimeClip_def MakeDate_def makeday_iso_y999 msPerDay_def)

lemma parseInputDate_iso_y999: "parseInputDate eng (js ''0999-06-15'') = Some (js ''0999-06-15'')"
  by (simp add: parseInputDate_def trim_iso_y999 shape_iso_y999 parseISOKey_def newDate_iso_y999)

lemma makeday_iso_y1000: "MakeDay 1000 5 15 = (- 354120)"
  by (simp add: MakeDay_def Let_def DayFromYear_def DaysInYear_def monthStart_def)

lemma trim_iso_y1000: "trim (js ''1000-06-15'') = js ''1000-06-15''"
  by (simp add: trim_def js_def isStrWhiteSpaceChar_def)

lemma shape_iso_y1000:
  "\<not> rxTest rxDMYSlash (js ''1000-06-15'')" "\<not> rxTest rxDMYHyphen (js ''1000-06-15'')"
  "rxTest rxISO (js ''1000-06-15'')"
  by (simp_all add: rx_eval js_def isDigit_def)

lemma newDate_iso_y1000: "newDateISO eng (js ''1000-06-15'') = Some (- 30595968000000)"
  by (simp add: newDateISO_def rx_eval js_def isDigit_def radixValue_def digitValue_def Let_def
        daysInMonth_def DaysInYear_def TimeClip_def MakeDate_def makeday_iso_y1000 msPerDay_def)

lemma parseInputDate_iso_y1000: "parseInputDate eng (js ''1000-06-15'') = Some (js ''1000-06-15'')"
  by (simp add: parseInputDate_def trim_iso_y1000 shape_iso_y1000 parseISOKey_def newDate_iso_y1000)

subsection \<open>Reading the daily CSV: partial success\<close>

lemmas csv_eval = csvParseDaily_def csvRows_def csvCells_def csvLines_def dropHeader_def toLowerCase_def

lemma parseInputDate_bad: "parseInputDate eng (js ''bad'') = None"
  by (simp add: parseInputDate_def trim_def rx_eval js_def isDigit_def isStrWhiteSpaceChar_def)

lemma value_261_72: "StringToNumber (filter (\<lambda>c. c \<noteq> comma) (js ''261.72'')) = Num (26172 / 100)"
  by (simp add: number_eval)

lemma value_5: "StringToNumber (filter (\<lambda>c. c \<noteq> comma) (js ''5'')) = Num 5"
  by (simp add: number_eval)

lemma value_10: "StringToNumber (filter (\<lambda>c. c \<noteq> comma) (js ''10'')) = Num 10"
  by (simp add: number_eval)

lemma rows_example:
  "dropHeader (csvRows (js ''date,V'' @ [LF] @ js ''18/12/2025,261.72'' @ [LF] @ js ''bad,oops''
       @ [LF] @ js ''20/13/2025,5''))
   = [[js ''18/12/2025'', js ''261.72''], [js ''bad'', js ''oops''], [js ''20/13/2025'', js ''5'']]"
  by (simp add: csv_eval trim_def js_def isStrWhiteSpaceChar_def)

lemma csv_example:
  "csvParseDaily eng (js ''date,V'' @ [LF] @ js ''18/12/2025,261.72'' @ [LF] @ js ''bad,oops''
       @ [LF] @ js ''20/13/2025,5'')
   = ([(js ''2025-12-18'', 26172 / 100)],
      [js ''Row 2: invalid date '' @ [apostrophe] @ js ''bad'' @ [apostrophe] @ js '' (expected DD/MM/YYYY)'',
       js ''Row 3: invalid date '' @ [apostrophe] @ js ''20/13/2025'' @ [apostrophe]
         @ js '' (expected DD/MM/YYYY)''])"
  unfolding csvParseDaily_def rows_example
  by (simp add: Let_def parseInputDate_dec18 parseInputDate_bad parseInputDate_m13 value_261_72 value_5)
     (simp add: dateErrorMsg_def numberToString_def digitsOf.simps js_def)

text \<open>
  C3.  \<open>csvParseDaily\<close> is a partial success.  It returns the records of the rows
  that have one and the errors of the others, both in the order of the rows.  A row has a
  record exactly when its date cell parses and its value cell, commas removed, is a
  finite number; it has an error exactly when it has no record.  The error is about the
  date when the date cell does not parse, about the value otherwise, and carries the
  position of the row counted from 1 and the raw cell.  So the records and the errors
  together are as many as the rows.  The text of the example gives the record of
  18 December 2025 with 261.72 and the errors of rows 2 and 3.
\<close>

theorem csvParseDaily_partial_success:
  "csvParseDaily eng text =
     (List.map_filter (rowRecord eng) (dropHeader (csvRows text)),
      List.map_filter (\<lambda>p. rowError eng (fst p) (snd p)) (numbered 0 (dropHeader (csvRows text))))
   \<and> rowRecord eng row =
       (case parseInputDate eng (row ! 0) of
          None \<Rightarrow> None
        | Some d \<Rightarrow> (case rowValue row of Num x \<Rightarrow> Some (d, x) | _ \<Rightarrow> None))
   \<and> rowError eng i row =
       (if parseInputDate eng (row ! 0) = None then Some (dateErrorMsg i (row ! 0))
        else if isFiniteNum (rowValue row) then None
        else Some (valueErrorMsg i (row ! 1)))
   \<and> (rowRecord eng row = None) = (rowError eng i row \<noteq> None)
   \<and> dateErrorMsg i raw =
       js ''Row '' @ numberToString (Num (real (i + 1))) @ js '': invalid date '' @ [apostrophe]
       @ raw @ [apostrophe] @ js '' (expected DD/MM/YYYY)''
   \<and> valueErrorMsg i raw =
       js ''Row '' @ numberToString (Num (real (i + 1))) @ js '': invalid value '' @ [apostrophe]
       @ raw @ [apostrophe]
   \<and> length (fst (csvParseDaily eng text)) + length (snd (csvParseDaily eng text))
       = length (dropHeader (csvRows text))
   \<and> csvParseDaily eng (js ''date,V'' @ [LF] @ js ''18/12/2025,261.72'' @ [LF] @ js ''bad,oops''
         @ [LF] @ js ''20/13/2025,5'')
       = ([(js ''2025-12-18'', 26172 / 100)],
          [js ''Row 2: invalid date '' @ [apostrophe] @ js ''bad'' @ [apostrophe]
             @ js '' (expected DD/MM/YYYY)'',
           js ''Row 3: invalid date '' @ [apostrophe] @ js ''20/13/2025'' @ [apostrophe]
             @ js '' (expected DD/MM/YYYY)''])"
  using csvParseDaily_rows [of eng "text"] rowRecord_alt [of eng row] rowError_alt [of eng i row]
    record_or_error [of eng row i] dateErrorMsg_def [of i raw] valueErrorMsg_def [of i raw]
    csvParseDaily_count [of eng "text"] csv_example [of eng]
  by blast

subsection \<open>Reading the daily CSV: lines of fewer than two cells\<close>

lemma rows_skipped:
  "dropHeader (csvRows (js ''x'' @ [LF] @ js ''bad,oops'')) = [[js ''bad'', js ''oops'']]"
  by (simp add: csv_eval trim_def js_def isStrWhiteSpaceChar_def)

lemma csv_skipped:
  "csvParseDaily eng (js ''x'' @ [LF] @ js ''bad,oops'')
     = ([], [js ''Row 1: invalid date '' @ [apostrophe] @ js ''bad'' @ [apostrophe]
               @ js '' (expected DD/MM/YYYY)''])"
  unfolding csvParseDaily_def rows_skipped
  by (simp add: Let_def parseInputDate_bad)
     (simp add: dateErrorMsg_def numberToString_def digitsOf.simps js_def)

text \<open>
  C9.  A line that splits at the commas into fewer than two cells leaves no trace: the
  result of \<open>csvParseDaily\<close> is the same with the line and without it, whether the
  line is between two others, the first or the last.  The errors are those of the kept
  rows, numbered from 1 along the kept rows.  In the text of the two lines \<open>x\<close> and
  \<open>bad,oops\<close>, the error of the second line says row 1.
\<close>

theorem csvParseDaily_skips_short_lines:
  "(LF \<notin> set l \<and> length (splitOn comma l) < 2 \<longrightarrow>
      csvParseDaily eng (a @ [LF] @ l @ [LF] @ b) = csvParseDaily eng (a @ [LF] @ b)
      \<and> csvParseDaily eng (l @ [LF] @ b) = csvParseDaily eng b
      \<and> csvParseDaily eng (a @ [LF] @ l) = csvParseDaily eng a)
   \<and> snd (csvParseDaily eng text) =
       List.map_filter (\<lambda>p. rowError eng (fst p) (snd p)) (numbered 0 (dropHeader (csvRows text)))
   \<and> csvParseDaily eng (js ''x'' @ [LF] @ js ''bad,oops'')
       = ([], [js ''Row 1: invalid date '' @ [apostrophe] @ js ''bad'' @ [apostrophe]
                 @ js '' (expected DD/MM/YYYY)''])"
proof (intro conjI impI)
  assume l: "LF \<notin> set l \<and> length (splitOn comma l) < 2"
  then have a: "LF \<notin> set l" and b: "comma \<notin> set l"
    by (simp_all add: one_cell_no_comma)
  show "csvParseDaily eng (a @ [LF] @ l @ [LF] @ b) = csvParseDaily eng (a @ [LF] @ b)"
    using a b by (rule skip_line_middle)
  show "csvParseDaily eng (l @ [LF] @ b) = csvParseDaily eng b"
    using a b by (rule skip_line_first)
  show "csvParseDaily eng (a @ [LF] @ l) = csvParseDaily eng a"
    using a b by (rule skip_line_last)
next
  show "snd (csvParseDaily eng text) =
      List.map_filter (\<lambda>p. rowError eng (fst p) (snd p)) (numbered 0 (dropHeader (csvRows text)))"
    by (simp add: csvParseDaily_rows)
next
  show "csvParseDaily eng (js ''x'' @ [LF] @ js ''bad,oops'')
       = ([], [js ''Row 1: invalid date '' @ [apostrophe] @ js ''bad'' @ [apostrophe]
                 @ js '' (expected DD/MM/YYYY)''])"
    by (rule csv_skipped)
qed

theorem csvParseDaily_skips_short_lines_witness:
  "LF \<notin> set (js ''total'') \<and> length (splitOn comma (js ''total'')) < 2
   \<and> csvParseDaily Rejects (js ''date,V'' @ [LF] @ js ''total'' @ [LF] @ js ''bad,oops'')
       = csvParseDaily Rejects (js ''date,V'' @ [LF] @ js ''bad,oops'')
   \<and> csvParseDaily Rejects (js ''total'' @ [LF] @ js ''bad,oops'')
       = csvParseDaily Rejects (js ''bad,oops'')
   \<and> csvParseDaily Rejects (js ''date,V'' @ [LF] @ js ''total'') = csvParseDaily Rejects (js ''date,V'')"
proof -
  have h: "LF \<notin> set (js ''total'') \<and> length (splitOn comma (js ''total'')) < 2"
    by (simp add: js_def)
  show ?thesis
    using h csvParseDaily_skips_short_lines
      [of "js ''total''" Rejects "js ''date,V''" "js ''bad,oops''"]
    by blast
qed

subsection \<open>Input dates that are not dates\<close>

text \<open>
  C5.  31 February 2024 is refused when written \<open>31-02-2024\<close> or \<open>31/02/2024\<close>: the
  date is built with \<open>Date.UTC\<close>, which gives 2 March, and the comparison of its year,
  month and day with the input fails.  Written \<open>2024-02-31\<close> it goes through
  \<open>parseISOKey\<close>, which only asks whether the engine reads the string as a date and
  compares nothing: where the engine carries day 31 into March the input is accepted and
  returned as it is, where the engine refuses the string it is refused.
\<close>

theorem parseInputDate_feb31:
  "parseInputDate eng (js ''31-02-2024'') = None
   \<and> parseInputDate eng (js ''31/02/2024'') = None
   \<and> parseInputDate RollsOver (js ''2024-02-31'') = Some (js ''2024-02-31'')
   \<and> parseInputDate Rejects (js ''2024-02-31'') = None
   \<and> DateUTC (Num 2024) (Num 1) (Num 31) = Some 1709337600000
   \<and> getUTCMonth 1709337600000 = Num 2
   \<and> getUTCDate 1709337600000 = Num 2"
  by (simp add: parseInputDate_feb31_hyphen parseInputDate_feb31_slash parseInputDate_iso_feb31
      utc_feb31 getUTCMonth_def getUTCDate_def month_feb31 date_feb31)

subsection \<open>Export and import again\<close>

lemma format_csv_y50: "formatDDMMYYYYForCSV (js ''0050-01-01'') = js ''01/01/0050''"
  by (simp add: formatDDMMYYYYForCSV_def rx_eval js_def isDigit_def)

lemma format_csv_y999: "formatDDMMYYYYForCSV (js ''0999-06-15'') = js ''15/06/0999''"
  by (simp add: formatDDMMYYYYForCSV_def rx_eval js_def isDigit_def)

lemma export_y50:
  "exportDailyCSV [(js ''0050-01-01'', 5)] = js ''date,RatedCapacity_GW'' @ [LF] @ js ''01/01/0050,5''"
  by (simp add: exportDailyCSV_def dailySorted_def sortBy_def DAILY_VALUE_COL_def format_csv_y50)
     (simp add: numberToString_def digitsOf.simps js_def)

lemma export_y999:
  "exportDailyCSV [(js ''0999-06-15'', 10)] = js ''date,RatedCapacity_GW'' @ [LF] @ js ''15/06/0999,10''"
  by (simp add: exportDailyCSV_def dailySorted_def sortBy_def DAILY_VALUE_COL_def format_csv_y999)
     (simp add: numberToString_def digitsOf.simps js_def)

lemma rows_y50:
  "dropHeader (csvRows (js ''date,RatedCapacity_GW'' @ [LF] @ js ''01/01/0050,5''))
     = [[js ''01/01/0050'', js ''5'']]"
  by (simp add: csv_eval trim_def js_def isStrWhiteSpaceChar_def)

lemma rows_y999:
  "dropHeader (csvRows (js ''date,RatedCapacity_GW'' @ [LF] @ js ''15/06/0999,10''))
     = [[js ''15/06/0999'', js ''10'']]"
  by (simp add: csv_eval trim_def js_def isStrWhiteSpaceChar_def)

lemma reimport_y50:
  "csvParseDaily eng (exportDailyCSV [(js ''0050-01-01'', 5)])
     = ([], [js ''Row 1: invalid date '' @ [apostrophe] @ js ''01/01/0050'' @ [apostrophe]
               @ js '' (expected DD/MM/YYYY)''])"
  unfolding export_y50 csvParseDaily_def rows_y50
  by (simp add: Let_def parseInputDate_y50)
     (simp add: dateErrorMsg_def numberToString_def digitsOf.simps js_def)

lemma reimport_y999:
  "csvParseDaily eng (exportDailyCSV [(js ''0999-06-15'', 10)]) = ([(js ''999-06-15'', 10)], [])"
  unfolding export_y999 csvParseDaily_def rows_y999
  by (simp add: Let_def parseInputDate_y999 value_10) (simp add: js_def)

text \<open>
  C7.  The key \<open>0050-01-01\<close> is a date of the form \<open>YYYY-MM-DD\<close> that the date
  parser accepts, so it can be a key of the daily map.  The export writes its record as
  the row \<open>01/01/0050,5\<close>.  Reading that text again gives no record and one error:
  \<open>Date.UTC\<close> takes the year 50 for 1950, and the comparison of the years fails.  Merged
  into the empty map, the result is the empty map.  A year from 100 to 999 comes back
  under another key: \<open>0999-06-15\<close> returns as \<open>999-06-15\<close>.
\<close>

theorem export_import_small_years:
  "parseInputDate eng (js ''0050-01-01'') = Some (js ''0050-01-01'')
   \<and> exportDailyCSV [(js ''0050-01-01'', 5)]
       = js ''date,RatedCapacity_GW'' @ [LF] @ js ''01/01/0050,5''
   \<and> csvParseDaily eng (exportDailyCSV [(js ''0050-01-01'', 5)])
       = ([], [js ''Row 1: invalid date '' @ [apostrophe] @ js ''01/01/0050'' @ [apostrophe]
                 @ js '' (expected DD/MM/YYYY)''])
   \<and> mergeRecords [] (fst (csvParseDaily eng (exportDailyCSV [(js ''0050-01-01'', 5)]))) = []
   \<and> parseInputDate eng (js ''0999-06-15'') = Some (js ''0999-06-15'')
   \<and> mergeRecords [] (fst (csvParseDaily eng (exportDailyCSV [(js ''0999-06-15'', 10)])))
       = [(js ''999-06-15'', 10)]"
proof -
  have "mergeRecords [] (fst (csvParseDaily eng (exportDailyCSV [(js ''0050-01-01'', 5)]))) = []"
    unfolding reimport_y50 by (simp add: mergeRecords_def)
  moreover have "mergeRecords [] (fst (csvParseDaily eng (exportDailyCSV [(js ''0999-06-15'', 10)])))
      = [(js ''999-06-15'', 10)]"
    unfolding reimport_y999 by (simp add: mergeRecords_def)
  ultimately show ?thesis
    using parseInputDate_iso_y50 [of eng] export_y50 reimport_y50 [of eng]
      parseInputDate_iso_y999 [of eng]
    by blast
qed

subsection \<open>Year over year\<close>

lemma lookup_y1000:
  "dailyLookup [(js ''1000-06-15'', 20), (js ''0999-06-15'', 10)]
     = [(js ''0999-06-15'', 10), (js ''1000-06-15'', 20)]"
  by (simp add: dailyLookup_def dailySorted_def sortBy_def sortISO_def js_def)

lemma prevYearKey_y1000: "prevYearKey (js ''1000-06-15'') = js ''999-06-15''"
  by (simp add: prevYearKey_def number_eval)

lemma prevYearKey_y2025: "prevYearKey (js ''2025-12-20'') = js ''2024-12-20''"
  by (simp add: prevYearKey_def number_eval)

lemma format_y1000: "formatDDMMYYYY (js ''1000-06-15'') = js ''15-06-1000''"
  by (simp add: formatDDMMYYYY_def rx_eval js_def isDigit_def)

lemma format_y2025: "formatDDMMYYYY (js ''2025-12-20'') = js ''20-12-2025''"
  by (simp add: formatDDMMYYYY_def rx_eval js_def isDigit_def)

lemma chartPoint_y1000:
  "chartPoint (dailyLookup [(js ''1000-06-15'', 20), (js ''0999-06-15'', 10)]) (js ''1000-06-15'')
     = Some \<lparr> label = js ''15-06-1000'', units = 20, prev_year_units = None, yoy_pct = None \<rparr>"
  unfolding lookup_y1000 chartPoint_def Let_def prevYearKey_y1000 format_y1000
  by (simp add: js_def)

lemma chartPoint_y2025:
  "chartPoint [(js ''2024-12-20'', 250), (js ''2025-12-20'', 26095 / 100)] (js ''2025-12-20'')
     = Some \<lparr> label = js ''20-12-2025'', units = 26095 / 100, prev_year_units = Some 250,
              yoy_pct = Some (438 / 100) \<rparr>"
  unfolding chartPoint_def Let_def prevYearKey_y2025 format_y2025
  by (simp add: js_def growthPct_def safeDiv_def)

lemma growthPct_formula:
  "growthPct cur prev = (if prev = 0 then None else Some ((cur - prev) / prev * 100))"
  by (simp add: growthPct_def safeDiv_def)

text \<open>
  C4.  The growth is \<open>(cur - prev) / prev * 100\<close>, and nothing when \<open>prev\<close> is 0.  The
  key of the year before is the number of the year minus one, written as a number, in
  front of the rest of the key: for \<open>2025-12-20\<close> it is \<open>2024-12-20\<close>, and the point
  of the chart has the value of that day and the growth against it.  For
  \<open>1000-06-15\<close> it is \<open>999-06-15\<close>, of three digits, while the date parser stores the
  day written \<open>0999-06-15\<close> under that key: with records at both days the point at
  \<open>1000-06-15\<close> has no value of the year before and no growth.
\<close>

theorem chartPoint_year_1000:
  "growthPct cur prev = (if prev = 0 then None else Some ((cur - prev) / prev * 100))
   \<and> prevYearKey (js ''2025-12-20'') = js ''2024-12-20''
   \<and> chartPoint [(js ''2024-12-20'', 250), (js ''2025-12-20'', 26095 / 100)] (js ''2025-12-20'')
       = Some \<lparr> label = js ''20-12-2025'', units = 26095 / 100, prev_year_units = Some 250,
                  yoy_pct = Some (438 / 100) \<rparr>
   \<and> parseInputDate eng (js ''0999-06-15'') = Some (js ''0999-06-15'')
   \<and> parseInputDate eng (js ''1000-06-15'') = Some (js ''1000-06-15'')
   \<and> prevYearKey (js ''1000-06-15'') = js ''999-06-15''
   \<and> chartPoint (dailyLookup [(js ''1000-06-15'', 20), (js ''0999-06-15'', 10)]) (js ''1000-06-15'')
       = Some \<lparr> label = js ''15-06-1000'', units = 20, prev_year_units = None, yoy_pct = None \<rparr>"
  using growthPct_formula [of cur prev] prevYearKey_y2025 chartPoint_y2025
    parseInputDate_iso_y999 [of eng] parseInputDate_iso_y1000 [of eng] prevYearKey_y1000
    chartPoint_y1000
  by blast

end
